theory Spec2Isabelle
  imports
    Complex_Main
    "HOL-Library.Char_ord"
    "HOL-Library.List_Lexorder"
    "HOL-Library.Multiset"
    "HOL-Library.Word"
    "HOL-Library.Signed_Division"
begin

section \<open>JavaScript values and the built-ins the scripts use\<close>

text \<open>
  The datasets are JSON. A property of a record is a string, a number, a boolean,
  \<open>null\<close>, or absent (reading it gives \<open>undefined\<close>). Numbers of the library
  dataset are years; they are modelled as unbounded integers, and \<open>NaN\<close> (which JSON
  cannot carry and only a conversion produces) is the value \<open>None\<close> of the conversion.
  Strings are lists of 8-bit characters: the model is exact on ASCII text, where a
  character is one UTF-16 code unit.
\<close>

datatype jsval = JUndefined | JNull | JBool bool | JNum int | JStr string

fun truthy :: "jsval \<Rightarrow> bool" where
  "truthy JUndefined = False"
| "truthy JNull = False"
| "truthy (JBool b) = b"
| "truthy (JNum n) = (n \<noteq> 0)"
| "truthy (JStr s) = (s \<noteq> [])"

fun nat_digits :: "nat \<Rightarrow> string" where
  "nat_digits n =
     (if n < 10 then [''0123456789'' ! n]
      else nat_digits (n div 10) @ [''0123456789'' ! (n mod 10)])"

declare nat_digits.simps [simp del]

definition int_string :: "int \<Rightarrow> string" where
  "int_string n = (if n < 0 then CHR ''-'' # nat_digits (nat (- n)) else nat_digits (nat n))"

text \<open>\<open>String(v)\<close>, which is also what \<open>v + ' '\<close> does to \<open>v\<close>.\<close>

fun ToString :: "jsval \<Rightarrow> string" where
  "ToString JUndefined = ''undefined''"
| "ToString JNull = ''null''"
| "ToString (JBool b) = (if b then ''true'' else ''false'')"
| "ToString (JNum n) = int_string n"
| "ToString (JStr s) = s"

definition is_upper :: "char \<Rightarrow> bool" where
  "is_upper c = (65 \<le> (of_char c :: nat) \<and> (of_char c :: nat) \<le> 90)"

definition is_lower :: "char \<Rightarrow> bool" where
  "is_lower c = (97 \<le> (of_char c :: nat) \<and> (of_char c :: nat) \<le> 122)"

definition is_digit :: "char \<Rightarrow> bool" where
  "is_digit c = (48 \<le> (of_char c :: nat) \<and> (of_char c :: nat) \<le> 57)"

definition lower_char :: "char \<Rightarrow> char" where
  "lower_char c =
     (if is_upper c then ''abcdefghijklmnopqrstuvwxyz'' ! ((of_char c :: nat) - 65) else c)"

definition toLowerCase :: "string \<Rightarrow> string" where
  "toLowerCase s = map lower_char s"

text \<open>White space of \<open>trim\<close> and of the regular expressions' \<open>\s\<close>, within ASCII:
  tab, line feed, vertical tab, form feed, carriage return and space.\<close>

definition is_space :: "char \<Rightarrow> bool" where
  "is_space c = ((of_char c :: nat) \<in> {9, 10, 11, 12, 13, 32})"

definition trim :: "string \<Rightarrow> string" where
  "trim s = rev (dropWhile is_space (rev (dropWhile is_space s)))"

fun starts_with :: "string \<Rightarrow> string \<Rightarrow> bool" where
  "starts_with s [] = True"
| "starts_with [] (q # qs) = False"
| "starts_with (c # cs) (q # qs) = (c = q \<and> starts_with cs qs)"

text \<open>\<open>hay.includes(query)\<close>: the query occurs in \<open>hay\<close> as a contiguous run.\<close>

fun js_includes :: "string \<Rightarrow> string \<Rightarrow> bool" where
  "js_includes [] q = (q = [])"
| "js_includes (c # cs) q = (starts_with (c # cs) q \<or> js_includes cs q)"

text \<open>
  \<open>Number(v)\<close>. A string is trimmed; the empty string is 0 and an optionally signed run
  of decimal digits is its value. The other numeric literals JavaScript reads (a fraction,
  an exponent, a radix prefix, \<open>Infinity\<close>) are not years of the dataset; the model
  gives \<open>NaN\<close> for them, as it does for every other text.
\<close>

definition digits_value :: "string \<Rightarrow> int" where
  "digits_value s = foldl (\<lambda>a c. 10 * a + (int (of_char c) - 48)) 0 s"

definition unsigned_number :: "string \<Rightarrow> int option" where
  "unsigned_number s = (if s \<noteq> [] \<and> list_all is_digit s then Some (digits_value s) else None)"

definition StringToNumber :: "string \<Rightarrow> int option" where
  "StringToNumber s =
     (case trim s of
        [] \<Rightarrow> Some 0
      | c # cs \<Rightarrow>
          if c = CHR ''-'' then map_option uminus (unsigned_number cs)
          else if c = CHR ''+'' then unsigned_number cs
          else unsigned_number (c # cs))"

fun ToNumber :: "jsval \<Rightarrow> int option" where
  "ToNumber JUndefined = None"
| "ToNumber JNull = Some 0"
| "ToNumber (JBool b) = Some (if b then 1 else 0)"
| "ToNumber (JNum n) = Some n"
| "ToNumber (JStr s) = StringToNumber s"

text \<open>\<open>Number(v) || 0\<close>: \<open>NaN\<close> is falsy, so it becomes 0.\<close>

definition number_or_0 :: "jsval \<Rightarrow> int" where
  "number_or_0 v = (case ToNumber v of None \<Rightarrow> 0 | Some n \<Rightarrow> n)"

text \<open>
  \<open>Array.prototype.sort(cmp)\<close> is stable, and with a comparator that orders its
  arguments consistently it returns the sorted arrangement; the stable sorted arrangement
  of a list is unique, so the insertion sort below computes what every engine does.
  An element is placed before the first element it does not compare greater than, and
  the elements are inserted from the right, which keeps equal elements in their order.
\<close>

fun insertBy :: "('a \<Rightarrow> 'a \<Rightarrow> int) \<Rightarrow> 'a \<Rightarrow> 'a list \<Rightarrow> 'a list" where
  "insertBy cmp x [] = [x]"
| "insertBy cmp x (y # ys) = (if cmp x y \<le> 0 then x # y # ys else y # insertBy cmp x ys)"

definition js_sort :: "('a \<Rightarrow> 'a \<Rightarrow> int) \<Rightarrow> 'a list \<Rightarrow> 'a list" where
  "js_sort cmp xs = foldr (insertBy cmp) xs []"

section \<open>The library catalogue (static/js/library.js, first script)\<close>

subsection \<open>Records and controls\<close>

text \<open>
  A text property of a catalogue record is a string, \<open>null\<close> or absent. The script
  calls string methods on \<open>author\<close> and \<open>stream\<close> whenever they are truthy, so these
  properties cannot hold a number or a boolean; \<open>year\<close> and \<open>have\<close> are only ever
  coerced, and hold any JSON value.
\<close>

datatype jstext = Absent | Null | Str string

fun text_val :: "jstext \<Rightarrow> jsval" where
  "text_val Absent = JUndefined"
| "text_val Null = JNull"
| "text_val (Str s) = JStr s"

record entry =
  author :: jstext
  title :: jstext
  key_concepts :: jstext
  stream :: jstext
  topic :: jstext
  url :: jstext
  year :: jsval
  have_it :: jsval

text \<open>\<open>d[name]\<close> for a property name computed at run time (the sort field).\<close>

definition getProp :: "entry \<Rightarrow> string \<Rightarrow> jsval" where
  "getProp d name =
     (if name = ''author'' then text_val (author d)
      else if name = ''title'' then text_val (title d)
      else if name = ''key_concepts'' then text_val (key_concepts d)
      else if name = ''stream'' then text_val (stream d)
      else if name = ''topic'' then text_val (topic d)
      else if name = ''url'' then text_val (url d)
      else if name = ''year'' then year d
      else if name = ''have'' then have_it d
      else JUndefined)"

text \<open>The values of the five controls: the search box and the four select boxes.\<close>

record controls =
  searchValue :: string
  streamValue :: string
  topicValue :: string
  eraValue :: string
  haveValue :: string

subsection \<open>Era ranges, filtering and the comparator\<close>

definition getEraRange :: "string \<Rightarrow> int \<times> int" where
  "getEraRange era =
     (if era = ''pre-1800'' then (0, 1799)
      else if era = ''1800-1900'' then (1800, 1900)
      else if era = ''1900-1958'' then (1901, 1957)
      else if era = ''1958-1980'' then (1958, 1980)
      else if era = ''1980-present'' then (1981, 9999)
      else (0, 9999))"

definition hay :: "entry \<Rightarrow> string" where
  "hay d = toLowerCase (ToString (text_val (author d)) @ '' '' @ ToString (text_val (title d))
                          @ '' '' @ ToString (text_val (key_concepts d)))"

text \<open>The callback of \<open>data.filter\<close> in \<open>applyFilters\<close>, test by test.\<close>

definition filterPred :: "controls \<Rightarrow> entry \<Rightarrow> bool" where
  "filterPred c d =
     (let query = trim (toLowerCase (searchValue c));
          eraMin = fst (getEraRange (eraValue c));
          eraMax = snd (getEraRange (eraValue c));
          y = number_or_0 (year d)
      in if query \<noteq> [] \<and> \<not> js_includes (hay d) query then False
         else if streamValue c \<noteq> [] \<and> stream d \<noteq> Str (streamValue c) then False
         else if topicValue c \<noteq> [] \<and> topic d \<noteq> Str (topicValue c) then False
         else if eraValue c \<noteq> [] \<and> (y < eraMin \<or> y > eraMax) then False
         else if haveValue c = ''yes'' \<and> \<not> truthy (have_it d) then False
         else if haveValue c = ''no'' \<and> truthy (have_it d) then False
         else True)"

text \<open>\<open>va || ''\<close>.\<close>

definition or_empty :: "jsval \<Rightarrow> jsval" where
  "or_empty v = (if truthy v then v else JStr [])"

text \<open>The comparator of \<open>filtered.sort\<close>; strings compare by code units, as lists do.\<close>

definition compareEntries :: "string \<Rightarrow> int \<Rightarrow> entry \<Rightarrow> entry \<Rightarrow> int" where
  "compareEntries sortField sortDir a b =
     (if sortField = ''year'' then
        (let va = number_or_0 (getProp a sortField); vb = number_or_0 (getProp b sortField)
         in if va < vb then - sortDir else if va > vb then sortDir else 0)
      else
        (let va = toLowerCase (ToString (or_empty (getProp a sortField)));
             vb = toLowerCase (ToString (or_empty (getProp b sortField)))
         in if va < vb then - sortDir else if va > vb then sortDir else 0))"

text \<open>The five era names offered by the era filter.\<close>

definition eraNames :: "string list" where
  "eraNames = [''pre-1800'', ''1800-1900'', ''1900-1958'', ''1958-1980'', ''1980-present'']"

text \<open>Controls with the era filter alone set.\<close>

definition eraOnly :: "string \<Rightarrow> controls" where
  "eraOnly era = \<lparr>searchValue = [], streamValue = [], topicValue = [], eraValue = era, haveValue = []\<rparr>"

subsection \<open>Author keys\<close>

definition is_letter :: "char \<Rightarrow> bool" where
  "is_letter c = (is_upper c \<or> is_lower c)"

text \<open>A word character of the regular expressions' \<open>\b\<close>.\<close>

definition is_word :: "char \<Rightarrow> bool" where
  "is_word c = (is_letter c \<or> is_digit c \<or> c = CHR ''_'')"

text \<open>
  One match of \<open>/[;&]|,\s+(?=[A-Z])|\band\b/i\<close> at the head of \<open>s\<close>, where \<open>prev\<close> is
  the character before it (\<open>None\<close> at the start of the string): the length of the match.
  The three alternatives begin with different characters. In the second, \<open>\s+\<close> takes
  the whole run of white space: after a shorter run the next character is white space,
  which the look-ahead refuses. Under the flag \<open>i\<close> the class \<open>[A-Z]\<close> is the ASCII
  letters and \<open>and\<close> matches in either case.
\<close>

definition separatorAt :: "char option \<Rightarrow> string \<Rightarrow> nat option" where
  "separatorAt prev s =
     (case s of
        [] \<Rightarrow> None
      | c # cs \<Rightarrow>
          if c = CHR '';'' \<or> c = CHR ''&'' then Some 1
          else if c = CHR '','' then
            (case dropWhile is_space cs of
               [] \<Rightarrow> None
             | r # _ \<Rightarrow>
                 if takeWhile is_space cs \<noteq> [] \<and> is_letter r
                 then Some (1 + length (takeWhile is_space cs)) else None)
          else if toLowerCase (take 3 s) = ''and''
                  \<and> \<not> (case prev of None \<Rightarrow> False | Some p \<Rightarrow> is_word p)
                  \<and> \<not> (case drop 3 s of [] \<Rightarrow> False | n # _ \<Rightarrow> is_word n)
          then Some 3
          else None)"

text \<open>
  \<open>authorStr.split(re)\<close>: \<open>cur\<close> is the piece collected so far. Every match is at
  least one character long, so the scan resumes \<open>n - 1\<close> characters after \<open>cs\<close>.
\<close>

fun splitAuthors :: "char option \<Rightarrow> string \<Rightarrow> string \<Rightarrow> string list" where
  "splitAuthors prev cur [] = [cur]"
| "splitAuthors prev cur (c # cs) =
     (case separatorAt prev (c # cs) of
        Some n \<Rightarrow> cur # splitAuthors (Some (last (take n (c # cs)))) [] (drop (n - 1) cs)
      | None \<Rightarrow> splitAuthors (Some c) (cur @ [c]) cs)"

definition authorKeyOf :: "string \<Rightarrow> string list" where
  "authorKeyOf p =
     (let trimmed = trim p
      in if trimmed = [] then []
         else (let normalized =
                     toLowerCase (trim (filter (\<lambda>c. c \<noteq> CHR ''.'' \<and> c \<noteq> CHR '','') trimmed))
               in if length normalized > 2 then [normalized] else []))"

definition getAuthorKeys :: "jstext \<Rightarrow> string list" where
  "getAuthorKeys authorStr =
     (case authorStr of
        Str s \<Rightarrow> if s = [] then [] else concat (map authorKeyOf (splitAuthors None [] s))
      | _ \<Rightarrow> [])"

text \<open>The first piece of \<open>authorStr.split(/[,;]/)\<close>, trimmed, lowercased, dots removed.\<close>

definition getPrimaryAuthorKey :: "jstext \<Rightarrow> string" where
  "getPrimaryAuthorKey authorStr =
     (case authorStr of
        Str s \<Rightarrow>
          filter (\<lambda>c. c \<noteq> CHR ''.'')
            (toLowerCase (trim (takeWhile (\<lambda>c. c \<noteq> CHR '','' \<and> c \<noteq> CHR '';'') s)))
      | _ \<Rightarrow> [])"

subsection \<open>Rendered rows\<close>

text \<open>A table cell holds plain text, or a link with its target (the author key for an
  author link, the address for a title link) and its text.\<close>

datatype cell = Plain string | Linked string string

record row =
  yearCell :: string
  authorCell :: cell
  titleCell :: cell
  streamClass :: string
  streamCell :: string
  topicCell :: string

text \<open>Assigning \<open>null\<close> or \<open>undefined\<close> to \<open>textContent\<close> leaves the element empty.\<close>

fun textContent :: "jstext \<Rightarrow> string" where
  "textContent (Str s) = s"
| "textContent Absent = []"
| "textContent Null = []"

text \<open>The body of the loop of \<open>renderBatch\<close>: the row built for one record.\<close>

definition renderRow :: "string list \<Rightarrow> entry \<Rightarrow> row" where
  "renderRow multi d =
     (let authorKey = getPrimaryAuthorKey (author d)
      in \<lparr>yearCell = (if truthy (year d) then ToString (year d) else []),
          authorCell = (if authorKey \<noteq> [] \<and> authorKey \<in> set multi
                        then Linked authorKey (textContent (author d))
                        else Plain (textContent (author d))),
          titleCell = (if truthy (text_val (url d))
                       then Linked (textContent (url d)) (textContent (title d))
                       else Plain (textContent (title d))),
          streamClass = ''stream-col'' @ (if truthy (text_val (stream d))
                                         then '' stream-'' @ toLowerCase (textContent (stream d))
                                         else []),
          streamCell = textContent (stream d),
          topicCell = textContent (topic d)\<rparr>)"

subsection \<open>The author journey panel\<close>

text \<open>
  The span of the subtitle: empty when no work has a truthy year, otherwise the least and
  the greatest of \<open>Number(w.year)\<close>, each \<open>NaN\<close> (\<open>None\<close>) as soon as one year is.
\<close>

datatype span = NoSpan | Span "int option" "int option"

definition yearSpan :: "entry list \<Rightarrow> span" where
  "yearSpan works =
     (let yearRange = map (\<lambda>w. ToNumber (year w)) (filter (\<lambda>w. truthy (year w)) works)
      in if yearRange = [] then NoSpan
         else if None \<in> set yearRange then Span None None
         else Span (Some (Min (set (map the yearRange)))) (Some (Max (set (map the yearRange)))))"

record journeyItem =
  dotClasses :: "string list"
  itemYear :: string
  itemTitle :: string
  itemMeta :: "string list"

definition journeyItemOf :: "entry \<Rightarrow> journeyItem" where
  "journeyItemOf w =
     \<lparr>dotClasses = ''journey-dot'' #
          (if stream w = Str ''Academic'' then [''academic'']
           else if stream w = Str ''Practitioner'' then [''practitioner''] else []),
      itemYear = (if truthy (year w) then ToString (year w) else ''?''),
      itemTitle = textContent (title w),
      itemMeta = (if truthy (text_val (stream w)) then [textContent (stream w)] else [])
                 @ (if truthy (text_val (topic w)) then [textContent (topic w)] else [])\<rparr>"

record journeyPanel =
  panelDisplay :: string
  panelAuthor :: string
  panelCount :: nat
  panelSpan :: span
  panelItems :: "journeyItem list"

subsection \<open>The state of the page\<close>

text \<open>
  Arrays are objects: \<open>sort\<close> reorders the array it is called on and every variable
  that refers to that array sees the change. The store \<open>heap\<close> maps the address of an
  array of records to its content; \<open>dataRef\<close> is the address of
  \<open>window.LIBRARY_DATA\<close>, \<open>filtered\<close> the address the variable \<open>filtered\<close> holds, and
  \<open>authorIndex\<close> maps a key to the address of its array, in insertion order. The script
  never assigns to a property of a record, so records are values.
\<close>

type_synonym addr = nat

record lib =
  heap :: "addr \<Rightarrow> entry list"
  nextFree :: addr
  dataRef :: addr
  filtered :: addr
  authorIndex :: "(string \<times> addr) list"
  multiWorkAuthors :: "string list"
  rendered :: nat
  sortField :: string
  sortDir :: int
  ctl :: controls
  tbody :: "row list"
  loadMore :: string
  stats :: string
  timer :: bool
  journey :: journeyPanel

datatype abort = EmptyData | TypeError

definition BATCH_SIZE :: nat where
  "BATCH_SIZE = 60"

definition renderBatch :: "lib \<Rightarrow> lib" where
  "renderBatch s =
     (let rows = heap s (filtered s);
          end = min (rendered s + BATCH_SIZE) (length rows)
      in if rendered s \<ge> end then s\<lparr>loadMore := ''none''\<rparr>
         else s\<lparr>tbody := tbody s @ map (renderRow (multiWorkAuthors s))
                                      (take (end - rendered s) (drop (rendered s) rows)),
                rendered := end,
                loadMore := (if end < length rows then ''block'' else ''none'')\<rparr>)"

definition updateStats :: "lib \<Rightarrow> lib" where
  "updateStats s =
     (let total = length (heap s (filtered s));
          haveCount = length (filter (\<lambda>d. truthy (have_it d)) (heap s (filtered s)));
          showing = min (rendered s) total
      in s\<lparr>stats := ''Showing '' @ nat_digits showing @ '' of '' @ nat_digits total
                      @ '' textbooks ('' @ nat_digits haveCount @ '' in collection)''\<rparr>)"

text \<open>
  \<open>applyFilters\<close>: \<open>data.filter\<close> makes a new array, which \<open>filtered\<close> then refers to;
  \<open>filtered.sort\<close> reorders the array \<open>filtered\<close> refers to, in place.
\<close>

definition applyFilters :: "lib \<Rightarrow> lib" where
  "applyFilters s =
     (let a = nextFree s;
          s1 = s\<lparr>heap := (heap s)(a := filter (filterPred (ctl s)) (heap s (dataRef s))),
                 nextFree := Suc a, filtered := a\<rparr>;
          s2 = s1\<lparr>heap := (heap s1)(filtered s1 :=
                     js_sort (compareEntries (sortField s1) (sortDir s1)) (heap s1 (filtered s1)))\<rparr>;
          s3 = s2\<lparr>rendered := 0, tbody := []\<rparr>
      in updateStats (renderBatch s3))"

text \<open>
  \<open>authorIndex\<close> is a plain object, so \<open>authorIndex[k]\<close> with a key that is not its own
  finds the property \<open>Object.prototype\<close> has under that name, if any: a function or an
  object, truthy, with neither \<open>push\<close> nor \<open>slice\<close>.
\<close>

definition objectPrototypeNames :: "string list" where
  "objectPrototypeNames =
     [''constructor'', ''__proto__'', ''hasOwnProperty'', ''isPrototypeOf'',
      ''propertyIsEnumerable'', ''toLocaleString'', ''toString'', ''valueOf'',
      ''__defineGetter__'', ''__defineSetter__'', ''__lookupGetter__'', ''__lookupSetter__'']"

definition compareYears :: "entry \<Rightarrow> entry \<Rightarrow> int" where
  "compareYears a b = number_or_0 (year a) - number_or_0 (year b)"

text \<open>
  \<open>showAuthorJourney\<close> after the lookup: \<open>slice()\<close> copies the author's array to a new
  one, \<open>sort\<close> reorders the copy in place, and fewer than two works end the call.
\<close>

definition journeyOf :: "entry list \<Rightarrow> string \<Rightarrow> lib \<Rightarrow> lib" where
  "journeyOf src displayName s =
     (let w = nextFree s;
          s1 = s\<lparr>heap := (heap s)(w := src), nextFree := Suc w\<rparr>;
          s2 = s1\<lparr>heap := (heap s1)(w := js_sort compareYears (heap s1 w))\<rparr>;
          works = heap s2 w
      in if length works < 2 then s2
         else s2\<lparr>journey := \<lparr>panelDisplay = ''block'', panelAuthor = displayName,
                             panelCount = length works, panelSpan = yearSpan works,
                             panelItems = map journeyItemOf works\<rparr>\<rparr>)"

definition showAuthorJourney :: "string \<Rightarrow> string \<Rightarrow> lib \<Rightarrow> abort + lib" where
  "showAuthorJourney key displayName s =
     (case map_of (authorIndex s) key of
        Some a \<Rightarrow> Inr (journeyOf (heap s a) displayName s)
      | None \<Rightarrow>
          if key \<in> set objectPrototypeNames then Inl TypeError
          else Inr (journeyOf [] displayName s))"

subsection \<open>Events\<close>

text \<open>
  What the page reacts to. A control has its new value when its event is dispatched.
  The search box's listener is \<open>debounce(applyFilters, 200)\<close>: it cancels the pending
  timer and sets a new one, and \<open>applyFilters\<close> runs when that timer fires.
  \<open>AuthorClick i\<close> is a click on the author cell of the \<open>i\<close>-th rendered row, which has a
  listener only when it is a link. An exception leaves a listener at the statement that
  threw; in \<open>showAuthorJourney\<close> that is the first one.
\<close>

datatype event =
    SearchInput string
  | TimerFires
  | StreamChange string
  | TopicChange string
  | EraChange string
  | HaveChange string
  | SortClick string
  | Intersection bool
  | AuthorClick nat
  | JourneyClose

definition sortClick :: "string \<Rightarrow> lib \<Rightarrow> lib" where
  "sortClick field s =
     (if sortField s = field then s\<lparr>sortDir := sortDir s * (- 1)\<rparr>
      else s\<lparr>sortField := field, sortDir := 1\<rparr>)"

fun handle :: "event \<Rightarrow> lib \<Rightarrow> lib" where
  "handle (SearchInput v) s = s\<lparr>ctl := (ctl s)\<lparr>searchValue := v\<rparr>, timer := True\<rparr>"
| "handle TimerFires s = (if timer s then applyFilters (s\<lparr>timer := False\<rparr>) else s)"
| "handle (StreamChange v) s = applyFilters (s\<lparr>ctl := (ctl s)\<lparr>streamValue := v\<rparr>\<rparr>)"
| "handle (TopicChange v) s = applyFilters (s\<lparr>ctl := (ctl s)\<lparr>topicValue := v\<rparr>\<rparr>)"
| "handle (EraChange v) s = applyFilters (s\<lparr>ctl := (ctl s)\<lparr>eraValue := v\<rparr>\<rparr>)"
| "handle (HaveChange v) s = applyFilters (s\<lparr>ctl := (ctl s)\<lparr>haveValue := v\<rparr>\<rparr>)"
| "handle (SortClick field) s = applyFilters (sortClick field s)"
| "handle (Intersection isIntersecting) s =
     (if isIntersecting \<and> rendered s < length (heap s (filtered s))
      then updateStats (renderBatch s) else s)"
| "handle (AuthorClick i) s =
     (if i < length (tbody s) then
        (case authorCell (tbody s ! i) of
           Linked key name \<Rightarrow>
             (case showAuthorJourney key name s of Inr s' \<Rightarrow> s' | Inl e \<Rightarrow> s)
         | Plain name \<Rightarrow> s)
      else s)"
| "handle JourneyClose s = s\<lparr>journey := (journey s)\<lparr>panelDisplay := ''none''\<rparr>\<rparr>"

definition run :: "event list \<Rightarrow> lib \<Rightarrow> lib" where
  "run es s = foldl (\<lambda>t e. handle e t) s es"

subsection \<open>Start-up\<close>

definition pushAuthor :: "entry \<Rightarrow> string \<Rightarrow> lib \<Rightarrow> abort + lib" where
  "pushAuthor d k s =
     (case map_of (authorIndex s) k of
        Some a \<Rightarrow> Inr (s\<lparr>heap := (heap s)(a := heap s a @ [d])\<rparr>)
      | None \<Rightarrow>
          if k \<in> set objectPrototypeNames then Inl TypeError
          else Inr (s\<lparr>heap := (heap s)(nextFree s := [d]),
                      authorIndex := authorIndex s @ [(k, nextFree s)],
                      nextFree := Suc (nextFree s)\<rparr>))"

fun pushAuthors :: "entry \<Rightarrow> string list \<Rightarrow> lib \<Rightarrow> abort + lib" where
  "pushAuthors d [] s = Inr s"
| "pushAuthors d (k # ks) s =
     (case pushAuthor d k s of Inl e \<Rightarrow> Inl e | Inr s' \<Rightarrow> pushAuthors d ks s')"

fun buildIndex :: "entry list \<Rightarrow> lib \<Rightarrow> abort + lib" where
  "buildIndex [] s = Inr s"
| "buildIndex (d # ds) s =
     (case pushAuthors d (getAuthorKeys (author d)) s of
        Inl e \<Rightarrow> Inl e
      | Inr s' \<Rightarrow> buildIndex ds s')"

text \<open>
  The variables as the script declares them, with the dataset at address 0 and
  \<open>filtered\<close> referring to the same array as \<open>data\<close>. The controls have the values the
  page gives them.
\<close>

definition start :: "controls \<Rightarrow> entry list \<Rightarrow> lib" where
  "start c0 ds =
     \<lparr>heap = (\<lambda>a. [])(0 := ds), nextFree = 1, dataRef = 0, filtered = 0,
      authorIndex = [], multiWorkAuthors = [], rendered = 0,
      sortField = ''year'', sortDir = 1, ctl = c0, tbody = [], loadMore = [],
      stats = [], timer = False,
      journey = \<lparr>panelDisplay = [], panelAuthor = [], panelCount = 0, panelSpan = NoSpan,
                 panelItems = []\<rparr>\<rparr>"

definition withMultiWorkAuthors :: "lib \<Rightarrow> lib" where
  "withMultiWorkAuthors s =
     s\<lparr>multiWorkAuthors := map fst (filter (\<lambda>(k, a). length (heap s a) \<ge> 2) (authorIndex s))\<rparr>"

text \<open>The script from top to bottom; it returns at once on an empty dataset.\<close>

definition init :: "controls \<Rightarrow> entry list \<Rightarrow> abort + lib" where
  "init c0 ds =
     (if ds = [] then Inl EmptyData
      else (case buildIndex ds (start c0 ds) of
              Inl e \<Rightarrow> Inl e
            | Inr s \<Rightarrow> Inr (applyFilters (withMultiWorkAuthors s))))"


subsection \<open>Derived notions\<close>

text \<open>The list \<open>applyFilters\<close> leaves in \<open>filtered\<close>, as a function of the state before.\<close>

definition view :: "lib \<Rightarrow> entry list" where
  "view s = js_sort (compareEntries (sortField s) (sortDir s))
              (filter (filterPred (ctl s)) (heap s (dataRef s)))"

text \<open>The key the comparator compares when the sort field is not \<open>year\<close>:
  \<open>String(value || '').toLowerCase()\<close>.\<close>

definition textKey :: "string \<Rightarrow> entry \<Rightarrow> string" where
  "textKey f a = toLowerCase (ToString (or_empty (getProp a f)))"

text \<open>\<open>q\<close> occurs in \<open>h\<close> as a substring.\<close>

definition substring_of :: "string \<Rightarrow> string \<Rightarrow> bool" where
  "substring_of q h = (\<exists>u v. h = u @ q @ v)"

text \<open>
  The stated selection: the record passes every active condition, where the search
  condition reads the lowercased concatenation of \<open>author\<close>, \<open>title\<close> and
  \<open>key_concepts\<close>, with nothing between them.
\<close>

definition selected_stated :: "controls \<Rightarrow> entry \<Rightarrow> bool" where
  "selected_stated c d =
     (let query = trim (toLowerCase (searchValue c)); y = number_or_0 (year d)
      in (query \<noteq> [] \<longrightarrow>
            substring_of query
              (toLowerCase (ToString (text_val (author d)) @ ToString (text_val (title d))
                            @ ToString (text_val (key_concepts d)))))
         \<and> (streamValue c \<noteq> [] \<longrightarrow> stream d = Str (streamValue c))
         \<and> (topicValue c \<noteq> [] \<longrightarrow> topic d = Str (topicValue c))
         \<and> (eraValue c \<noteq> [] \<longrightarrow> fst (getEraRange (eraValue c)) \<le> y \<and> y \<le> snd (getEraRange (eraValue c)))
         \<and> (haveValue c = ''yes'' \<longrightarrow> truthy (have_it d))
         \<and> (haveValue c = ''no'' \<longrightarrow> \<not> truthy (have_it d)))"

text \<open>The selection with the three texts joined by single spaces.\<close>

definition selected :: "controls \<Rightarrow> entry \<Rightarrow> bool" where
  "selected c d =
     (let query = trim (toLowerCase (searchValue c)); y = number_or_0 (year d)
      in (query \<noteq> [] \<longrightarrow>
            substring_of query
              (toLowerCase (ToString (text_val (author d)) @ '' '' @ ToString (text_val (title d))
                            @ '' '' @ ToString (text_val (key_concepts d)))))
         \<and> (streamValue c \<noteq> [] \<longrightarrow> stream d = Str (streamValue c))
         \<and> (topicValue c \<noteq> [] \<longrightarrow> topic d = Str (topicValue c))
         \<and> (eraValue c \<noteq> [] \<longrightarrow> fst (getEraRange (eraValue c)) \<le> y \<and> y \<le> snd (getEraRange (eraValue c)))
         \<and> (haveValue c = ''yes'' \<longrightarrow> truthy (have_it d))
         \<and> (haveValue c = ''no'' \<longrightarrow> \<not> truthy (have_it d)))"

text \<open>The invariant of incremental rendering.\<close>

definition renderInv :: "lib \<Rightarrow> bool" where
  "renderInv s =
     (rendered s \<le> length (heap s (filtered s))
      \<and> rendered s = length (tbody s)
      \<and> loadMore s = (if rendered s < length (heap s (filtered s)) then ''block'' else ''none''))"

text \<open>The arrays the variables refer to have been allocated, no array of the author
  index is the dataset, and two keys have two arrays.\<close>

definition allocated :: "lib \<Rightarrow> bool" where
  "allocated s =
     (dataRef s < nextFree s \<and> filtered s < nextFree s
      \<and> list_all (\<lambda>(k, a). a < nextFree s \<and> a \<noteq> dataRef s) (authorIndex s)
      \<and> distinct (map fst (authorIndex s)) \<and> distinct (map snd (authorIndex s)))"

text \<open>After start-up every operation writes only to arrays it has just made.\<close>

definition extends :: "lib \<Rightarrow> lib \<Rightarrow> bool" where
  "extends s0 s =
     (nextFree s0 \<le> nextFree s \<and> (\<forall>a < nextFree s0. heap s a = heap s0 a)
      \<and> dataRef s = dataRef s0 \<and> authorIndex s = authorIndex s0
      \<and> multiWorkAuthors s = multiWorkAuthors s0 \<and> filtered s < nextFree s
      \<and> filtered s0 < nextFree s0 \<and> filtered s0 \<le> filtered s)"

text \<open>The events whose listener is \<open>applyFilters\<close> itself, or calls it.\<close>

fun immediate :: "event \<Rightarrow> bool" where
  "immediate (StreamChange v) = True"
| "immediate (TopicChange v) = True"
| "immediate (EraChange v) = True"
| "immediate (HaveChange v) = True"
| "immediate (SortClick f) = True"
| "immediate e = False"

text \<open>The controls and the sort state once an event has been dispatched, with nothing
  recomputed.\<close>

fun controlsAfter :: "event \<Rightarrow> lib \<Rightarrow> lib" where
  "controlsAfter (SearchInput v) s = s\<lparr>ctl := (ctl s)\<lparr>searchValue := v\<rparr>\<rparr>"
| "controlsAfter (StreamChange v) s = s\<lparr>ctl := (ctl s)\<lparr>streamValue := v\<rparr>\<rparr>"
| "controlsAfter (TopicChange v) s = s\<lparr>ctl := (ctl s)\<lparr>topicValue := v\<rparr>\<rparr>"
| "controlsAfter (EraChange v) s = s\<lparr>ctl := (ctl s)\<lparr>eraValue := v\<rparr>\<rparr>"
| "controlsAfter (HaveChange v) s = s\<lparr>ctl := (ctl s)\<lparr>haveValue := v\<rparr>\<rparr>"
| "controlsAfter (SortClick f) s = sortClick f s"
| "controlsAfter e s = s"

text \<open>The works indexed under a key: \<open>authorIndex[key] || []\<close> for a key that names no
  property of \<open>Object.prototype\<close>.\<close>

definition worksOf :: "lib \<Rightarrow> string \<Rightarrow> entry list" where
  "worksOf s key = (case map_of (authorIndex s) key of Some a \<Rightarrow> heap s a | None \<Rightarrow> [])"


text \<open>The records that have \<open>key\<close> among their author keys, each as often as it has.\<close>

definition indexedUnder :: "string \<Rightarrow> entry list \<Rightarrow> entry list" where
  "indexedUnder key ds =
     concat (map (\<lambda>d. replicate (count_list (getAuthorKeys (author d)) key) d) ds)"


section \<open>The timeline (static/js/library.js, second script)\<close>

text \<open>
  A record of \<open>window.TIMELINE_DATA\<close>. The script computes with \<open>year\<close> and \<open>score\<close>, so
  they are numbers (\<open>score\<close> may be \<open>null\<close> or absent: \<open>None\<close>). Years are integers;
  every other number is modelled as a real number, with exact arithmetic where the script
  computes in double precision.
\<close>

record point =
  pt_author :: jstext
  pt_title :: jstext
  pt_year :: int
  paradigm :: jstext
  score :: "real option"
  has_note :: jsval
  slug :: jstext
  key_finding :: jstext

text \<open>A laid-out dot \<open>{x, y, d}\<close>.\<close>

record dot =
  pos_x :: real
  pos_y :: real
  pos_d :: point

text \<open>
  The canvas: its width on the page, its pixel size, the device pixel ratio, and the year
  range, which the script computes once from the dataset (the least positive year minus
  10, the greatest plus 10; without a positive year these are infinite, which is no value
  of the model).
\<close>

record canvas =
  cssWidth :: real
  canvasWidth :: int
  canvasHeight :: int
  dpr :: real
  minYear :: real
  maxYear :: real

definition PADDING_top :: real where "PADDING_top = 70"
definition PADDING_bottom :: real where "PADDING_bottom = 60"
definition PADDING_left :: real where "PADDING_left = 80"
definition PADDING_right :: real where "PADDING_right = 100"
definition DOT_R :: real where "DOT_R = 2.5"
definition DOT_R_NOTE :: real where "DOT_R_NOTE = 6"
definition DOT_R_HOVER :: real where "DOT_R_HOVER = 9"

text \<open>\<open>h = ((h << 5) - h + s.charCodeAt(i)) | 0\<close>, in 32-bit two's complement.\<close>

definition hashStr :: "string \<Rightarrow> 32 word" where
  "hashStr s = foldl (\<lambda>h c. push_bit 5 h - h + of_nat (of_char c)) 0 s"

definition yearToX :: "canvas \<Rightarrow> real \<Rightarrow> real" where
  "yearToX cv yr =
     (let w = real_of_int (canvasWidth cv) / dpr cv;
          usable = w - PADDING_left - PADDING_right
      in PADDING_left + ((yr - minYear cv) / (maxYear cv - minYear cv)) * usable)"

definition scoreToY :: "canvas \<Rightarrow> real \<Rightarrow> real" where
  "scoreToY cv sc =
     (let h = real_of_int (canvasHeight cv) / dpr cv;
          centerY = h / 2;
          halfRange = (h - PADDING_top - PADDING_bottom) / 2
      in centerY - sc * halfRange)"

text \<open>
  \<open>hashStr(d.author + d.title)\<close>: the sum is a string as soon as one of the two is; of
  two values that are \<open>null\<close> or absent it is a number, which has no \<open>length\<close>, and the
  loop of \<open>hashStr\<close> does not run.
\<close>

definition seedOf :: "point \<Rightarrow> 32 word" where
  "seedOf p =
     (case (pt_author p, pt_title p) of
        (Str a, t) \<Rightarrow> hashStr (a @ ToString (text_val t))
      | (a, Str t) \<Rightarrow> hashStr (ToString (text_val a) @ t)
      | _ \<Rightarrow> 0)"

text \<open>\<open>seed % 30\<close> has the sign of \<open>seed\<close>.\<close>

definition layoutDot :: "canvas \<Rightarrow> point \<Rightarrow> dot" where
  "layoutDot cv p =
     (let seed = sint (seedOf p);
          jitter = real_of_int (seed smod 30 - 15) * 0.3
      in \<lparr>pos_x = yearToX cv (real_of_int (pt_year p)),
          pos_y = scoreToY cv (case score p of None \<Rightarrow> 0 | Some sc \<Rightarrow> sc) + jitter,
          pos_d = p\<rparr>)"

definition layoutDots :: "canvas \<Rightarrow> point list \<Rightarrow> dot list" where
  "layoutDots cv items = map (layoutDot cv) items"

subsection \<open>Trend lines\<close>

text \<open>
  \<open>buckets\<close> is an object keyed by decade; \<open>buckets[dec].push(p.y)\<close> adds to the array
  of that decade, which is made on first use. It is kept as an association list in order of
  first use; the script sorts the keys before it reads them.
\<close>

definition decadeOf :: "dot \<Rightarrow> int" where
  "decadeOf p = (pt_year (pos_d p) div 10) * 10"

definition pushBucket :: "(int \<times> real list) list \<Rightarrow> dot \<Rightarrow> (int \<times> real list) list" where
  "pushBucket buckets p =
     (case map_of buckets (decadeOf p) of
        None \<Rightarrow> buckets @ [(decadeOf p, [pos_y p])]
      | Some ys \<Rightarrow> map (\<lambda>(k, v). if k = decadeOf p then (k, v @ [pos_y p]) else (k, v)) buckets)"

text \<open>A trend point \<open>{x, y}\<close> is a pair.\<close>

definition avgByDecade :: "canvas \<Rightarrow> dot list \<Rightarrow> (real \<times> real) list" where
  "avgByDecade cv pts =
     (let buckets = foldl pushBucket [] pts
      in map (\<lambda>dec. (yearToX cv (real_of_int dec + 5),
                      (case map_of buckets dec of
                         Some ys \<Rightarrow> foldl (+) 0 ys / real (length ys)
                       | None \<Rightarrow> 0)))
           (js_sort (\<lambda>a b. a - b) (map fst buckets)))"

record trends =
  academic :: "(real \<times> real) list"
  practitioner :: "(real \<times> real) list"

definition computeTrends :: "canvas \<Rightarrow> dot list \<Rightarrow> trends" where
  "computeTrends cv positions =
     \<lparr>academic = avgByDecade cv (filter (\<lambda>p. paradigm (pos_d p) = Str ''academic'') positions),
      practitioner = avgByDecade cv (filter (\<lambda>p. paradigm (pos_d p) = Str ''practitioner'') positions)\<rparr>"

subsection \<open>Hit testing\<close>

text \<open>
  The two loops of \<open>getHitIndex\<close>, each from the last index down: \<open>n\<close> is one more than
  the index looked at, which is below the length of \<open>positions\<close> throughout.
\<close>

fun noteHit :: "real \<Rightarrow> real \<Rightarrow> dot list \<Rightarrow> nat \<Rightarrow> nat option" where
  "noteHit mx my positions 0 = None"
| "noteHit mx my positions (Suc i) =
     (if \<not> truthy (has_note (pos_d (positions ! i))) then noteHit mx my positions i
      else (let dx = mx - pos_x (positions ! i); dy = my - pos_y (positions ! i)
            in if dx * dx + dy * dy \<le> (DOT_R_HOVER + 2) * (DOT_R_HOVER + 2) then Some i
               else noteHit mx my positions i))"

fun regularHit :: "real \<Rightarrow> real \<Rightarrow> dot list \<Rightarrow> nat \<Rightarrow> nat option" where
  "regularHit mx my positions 0 = None"
| "regularHit mx my positions (Suc i) =
     (if truthy (has_note (pos_d (positions ! i))) then regularHit mx my positions i
      else (let dx = mx - pos_x (positions ! i); dy = my - pos_y (positions ! i)
            in if dx * dx + dy * dy \<le> (DOT_R + 6) * (DOT_R + 6) then Some i
               else regularHit mx my positions i))"

definition getHitIndex :: "real \<Rightarrow> real \<Rightarrow> dot list \<Rightarrow> int" where
  "getHitIndex mx my positions =
     (case noteHit mx my positions (length positions) of
        Some i \<Rightarrow> int i
      | None \<Rightarrow>
          (case regularHit mx my positions (length positions) of
             Some i \<Rightarrow> int i
           | None \<Rightarrow> - 1))"

subsection \<open>The state of the timeline and its events\<close>

record popup =
  popupVisible :: bool
  popupTitle :: string
  popupColor :: string
  popupFinding :: string
  popupLink :: "string option"
  popupLeft :: real
  popupTop :: real

text \<open>
  As for the catalogue, arrays of records live in a store. \<open>positions\<close> is
  \<open>canvas._positions\<close>, an array of new objects. What \<open>draw\<close> paints is not part of the
  state; what it leaves behind is.
\<close>

record timeline =
  tl_heap :: "addr \<Rightarrow> point list"
  tl_nextFree :: addr
  tl_dataRef :: addr
  tl_canvas :: canvas
  tl_filter :: string
  hoveredIdx :: int
  selectedIdx :: int
  positions :: "dot list"
  cursor :: string
  tl_popup :: popup
  siteRoot :: string

definition TEXT_COLOR :: string where
  "TEXT_COLOR = ''#ede8d8''"

definition colorOf :: "jstext \<Rightarrow> string" where
  "colorOf p =
     (if p = Str ''pre-split'' then ''#94a3b8''
      else if p = Str ''transitional'' then ''#a78bfa''
      else if p = Str ''academic'' then ''#5ba4cf''
      else if p = Str ''practitioner'' then ''#d4a017''
      else TEXT_COLOR)"

definition resize :: "real \<Rightarrow> timeline \<Rightarrow> timeline" where
  "resize w s =
     s\<lparr>tl_canvas := (tl_canvas s)\<lparr>cssWidth := w,
                                      canvasWidth := \<lfloor>w * dpr (tl_canvas s)\<rfloor>,
                                      canvasHeight := \<lfloor>560 * dpr (tl_canvas s)\<rfloor>\<rparr>\<rparr>"

definition getFiltered :: "string \<Rightarrow> point list \<Rightarrow> point list" where
  "getFiltered f ds =
     filter (\<lambda>d. if pt_year d \<le> 0 then False
                 else if f = ''all'' then True
                 else paradigm d = Str f) ds"

text \<open>\<open>draw\<close>: \<open>getFiltered\<close> makes a new array of records, \<open>layoutDots\<close> a new array
  of dots, which \<open>canvas._positions\<close> then refers to.\<close>

definition draw :: "timeline \<Rightarrow> timeline" where
  "draw s =
     (let a = tl_nextFree s;
          s1 = s\<lparr>tl_heap := (tl_heap s)(a := getFiltered (tl_filter s) (tl_heap s (tl_dataRef s))),
                 tl_nextFree := Suc a\<rparr>
      in s1\<lparr>positions := layoutDots (tl_canvas s1) (tl_heap s1 a)\<rparr>)"

definition popupTitleOf :: "point \<Rightarrow> string" where
  "popupTitleOf d =
     (if truthy (text_val (pt_author d)) then ToString (text_val (pt_author d)) else ''Unknown'')
     @ '' ('' @ int_string (pt_year d) @ '')''"

definition popupFindingOf :: "point \<Rightarrow> string" where
  "popupFindingOf d =
     (if truthy (text_val (key_finding d)) then ToString (text_val (key_finding d))
      else if truthy (text_val (pt_title d)) then ToString (text_val (pt_title d))
      else [])"

definition showPopup :: "point \<Rightarrow> dot \<Rightarrow> timeline \<Rightarrow> timeline" where
  "showPopup d pos s =
     (let left0 = pos_x pos + 15;
          top0 = pos_y pos - 60;
          left1 = (if left0 + 350 > cssWidth (tl_canvas s) then pos_x pos - 365 else left0);
          top1 = (if top0 < 0 then 10 else top0)
      in s\<lparr>tl_popup :=
            \<lparr>popupVisible = True,
             popupTitle = popupTitleOf d,
             popupColor = colorOf (paradigm d),
             popupFinding = popupFindingOf d,
             popupLink = (if truthy (has_note d) \<and> truthy (text_val (slug d))
                          then Some (siteRoot s @ ''evidence/'' @ ToString (text_val (slug d)) @ ''.html'')
                          else None),
             popupLeft = left1, popupTop = top1\<rparr>\<rparr>)"

definition hidePopup :: "timeline \<Rightarrow> timeline" where
  "hidePopup s = s\<lparr>tl_popup := (tl_popup s)\<lparr>popupVisible := False\<rparr>\<rparr>"

text \<open>A mouse event carries the position relative to the canvas.\<close>

datatype tl_event =
    MouseMove real real
  | Click real real
  | MouseLeave
  | FilterButton string
  | Resize real

fun tl_handle :: "tl_event \<Rightarrow> timeline \<Rightarrow> timeline" where
  "tl_handle (MouseMove mx my) s =
     (let idx = getHitIndex mx my (positions s)
      in if idx \<noteq> hoveredIdx s
         then draw (s\<lparr>hoveredIdx := idx, cursor := (if idx \<ge> 0 then ''pointer'' else ''default'')\<rparr>)
         else s)"
| "tl_handle (Click mx my) s =
     (let idx = getHitIndex mx my (positions s)
      in if idx \<ge> 0
         then draw (showPopup (pos_d (positions s ! nat idx)) (positions s ! nat idx)
                      (s\<lparr>selectedIdx := idx\<rparr>))
         else draw ((hidePopup s)\<lparr>selectedIdx := - 1\<rparr>))"
| "tl_handle MouseLeave s = draw (s\<lparr>hoveredIdx := - 1, cursor := ''default''\<rparr>)"
| "tl_handle (FilterButton f) s = draw (hidePopup (s\<lparr>tl_filter := f, selectedIdx := - 1\<rparr>))"
| "tl_handle (Resize w) s = draw (resize w s)"

definition tl_run :: "tl_event list \<Rightarrow> timeline \<Rightarrow> timeline" where
  "tl_run es s = foldl (\<lambda>t e. tl_handle e t) s es"

text \<open>
  The script from top to bottom, on the dataset, the wrapper's width, the device pixel
  ratio, the year range and the site root; it returns at once on an empty dataset.
\<close>

definition tl_init :: "real \<Rightarrow> real \<Rightarrow> real \<Rightarrow> real \<Rightarrow> string \<Rightarrow> point list \<Rightarrow> timeline option" where
  "tl_init w ratio lo hi site ds =
     (if ds = [] then None
      else Some (draw (resize w
             \<lparr>tl_heap = (\<lambda>a. [])(0 := ds), tl_nextFree = 1, tl_dataRef = 0,
              tl_canvas = \<lparr>cssWidth = 0, canvasWidth = 0, canvasHeight = 0, dpr = ratio,
                           minYear = lo, maxYear = hi\<rparr>,
              tl_filter = ''all'', hoveredIdx = - 1, selectedIdx = - 1, positions = [],
              cursor = [], tl_popup = \<lparr>popupVisible = False, popupTitle = [], popupColor = [],
                                       popupFinding = [], popupLink = None, popupLeft = 0,
                                       popupTop = 0\<rparr>,
              siteRoot = site\<rparr>)))"


subsection \<open>Derived notions\<close>

text \<open>The Euclidean distance from the pointer to the centre of a dot.\<close>

definition distance :: "real \<Rightarrow> real \<Rightarrow> dot \<Rightarrow> real" where
  "distance mx my p = sqrt ((mx - pos_x p)\<^sup>2 + (my - pos_y p)\<^sup>2)"

text \<open>A note dot under the pointer, and a regular dot under the pointer.\<close>

definition noteAt :: "real \<Rightarrow> real \<Rightarrow> dot list \<Rightarrow> nat \<Rightarrow> bool" where
  "noteAt mx my ps i =
     (i < length ps \<and> truthy (has_note (pos_d (ps ! i)))
      \<and> distance mx my (ps ! i) \<le> DOT_R_HOVER + 2)"

definition regularAt :: "real \<Rightarrow> real \<Rightarrow> dot list \<Rightarrow> nat \<Rightarrow> bool" where
  "regularAt mx my ps i =
     (i < length ps \<and> \<not> truthy (has_note (pos_d (ps ! i)))
      \<and> distance mx my (ps ! i) \<le> DOT_R + 6)"

text \<open>The array of a decade, empty before the first dot of that decade.\<close>

definition bucketOf :: "(int \<times> real list) list \<Rightarrow> int \<Rightarrow> real list" where
  "bucketOf bs k = (case map_of bs k of None \<Rightarrow> [] | Some ys \<Rightarrow> ys)"

text \<open>The dataset's array has been allocated.\<close>

definition tl_allocated :: "timeline \<Rightarrow> bool" where
  "tl_allocated s = (tl_dataRef s < tl_nextFree s)"


section \<open>The divergence chart (static/js/periodicals.js and its three-series versions)\<close>

text \<open>
  What \<open>drawDivergence\<close> draws is the list of the calls it makes on the canvas context
  that paint, write or move the coordinate system, in order. Assignments to the context's
  style properties and \<open>setLineDash\<close> choose colours, fonts and line styles; they are not
  in the list. An \<open>x\<close> of a path call is \<open>NaN\<close> (\<open>None\<close>) when the window key has no
  leading number.
\<close>

datatype cmd =
    FillRect real real real real
  | BeginPath
  | MoveTo "real option" real
  | LineTo "real option" real
  | Arc "real option" real real
  | ClosePath
  | Stroke
  | Fill
  | FillText string real real
  | Save
  | Restore
  | Translate real real
  | Rotate real

text \<open>The margins \<open>pad\<close> of a chart.\<close>

record pad =
  pad_top :: real
  pad_bottom :: real
  pad_left :: real
  pad_right :: real

text \<open>
  What \<open>setupCanvas\<close> returns (\<open>w\<close>, \<open>h\<close>) and the year range of the chart, which the
  script takes from the window keys of the two streams (the least and the greatest
  window middle, minus and plus 5).
\<close>

record chart =
  chart_w :: real
  chart_h :: real
  chart_minYear :: real
  chart_maxYear :: real

definition xPos :: "pad \<Rightarrow> chart \<Rightarrow> real \<Rightarrow> real" where
  "xPos pd ch yr =
     pad_left pd + ((yr - chart_minYear ch) / (chart_maxYear ch - chart_minYear ch))
                     * (chart_w ch - pad_left pd - pad_right pd)"

definition yPos :: "pad \<Rightarrow> chart \<Rightarrow> real \<Rightarrow> real" where
  "yPos pd ch val = pad_top pd + (1 - val) * (chart_h ch - pad_top pd - pad_bottom pd)"

text \<open>
  \<open>parseInt(s)\<close>: leading white space, a sign, then the longest run of digits, hexadecimal
  after \<open>0x\<close>; \<open>NaN\<close> when that run is empty.
\<close>

definition is_hex :: "char \<Rightarrow> bool" where
  "is_hex c = (is_digit c \<or> (65 \<le> (of_char c :: nat) \<and> (of_char c :: nat) \<le> 70)
                         \<or> (97 \<le> (of_char c :: nat) \<and> (of_char c :: nat) \<le> 102))"

definition hex_value :: "string \<Rightarrow> int" where
  "hex_value s =
     foldl (\<lambda>a c. 16 * a + (if is_digit c then int (of_char c) - 48
                              else if is_upper c then int (of_char c) - 55
                              else int (of_char c) - 87)) 0 s"

definition parseDigits :: "string \<Rightarrow> int option" where
  "parseDigits s =
     (if take 2 s = ''0x'' \<or> take 2 s = ''0X'' then
        (if takeWhile is_hex (drop 2 s) = [] then None
         else Some (hex_value (takeWhile is_hex (drop 2 s))))
      else if takeWhile is_digit s = [] then None
      else Some (digits_value (takeWhile is_digit s)))"

definition parseInt :: "string \<Rightarrow> int option" where
  "parseInt s =
     (case dropWhile is_space s of
        [] \<Rightarrow> None
      | c # cs \<Rightarrow>
          if c = CHR ''-'' then map_option uminus (parseDigits cs)
          else if c = CHR ''+'' then parseDigits cs
          else parseDigits (c # cs))"

text \<open>\<open>parseInt(w.split('-')[0]) + 2\<close>: the middle of the five-year window \<open>w\<close>.\<close>

definition windowMid :: "string \<Rightarrow> real option" where
  "windowMid w =
     map_option (\<lambda>n. real_of_int n + 2) (parseInt (takeWhile (\<lambda>c. c \<noteq> CHR ''-'') w))"

text \<open>
  A divergence object maps a window key to an object with a \<open>cosine_distance\<close>; it is the
  list of its keys, each with that number. \<open>Object.keys(obj).sort()\<close> orders the keys as
  strings; \<open>obj[w].cosine_distance\<close> reads the number of a key.
\<close>

type_synonym series = "(string \<times> real) list"

definition cosine_distance :: "series \<Rightarrow> string \<Rightarrow> real" where
  "cosine_distance obj w = (case map_of obj w of Some v \<Rightarrow> v | None \<Rightarrow> 0)"

record midsVals =
  mids :: "real option list"
  vals :: "real list"

definition getSeries :: "series \<Rightarrow> midsVals" where
  "getSeries obj =
     (let wins = sort (map fst obj)
      in \<lparr>mids = map windowMid wins, vals = map (cosine_distance obj) wins\<rparr>)"

text \<open>The grid lines with their labels \<open>g.toFixed(2)\<close>, for \<open>g\<close> from 0 to 1 in steps of
  a quarter.\<close>

definition gridLines :: "pad \<Rightarrow> chart \<Rightarrow> cmd list" where
  "gridLines pd ch =
     concat (map (\<lambda>(g, label).
                    [BeginPath, MoveTo (Some (pad_left pd)) (yPos pd ch g),
                     LineTo (Some (chart_w ch - pad_right pd)) (yPos pd ch g), Stroke,
                     FillText label (pad_left pd - 6) (yPos pd ch g + 3)])
                 [(0, ''0.00''), (0.25, ''0.25''), (0.5, ''0.50''), (0.75, ''0.75''), (1, ''1.00'')])"

text \<open>The year labels, for the years from 1880 to 2020 in steps of 20 that fall inside
  the chart.\<close>

definition yearLabels :: "pad \<Rightarrow> chart \<Rightarrow> cmd list" where
  "yearLabels pd ch =
     concat (map (\<lambda>yr. let xx = xPos pd ch (real_of_int yr)
                        in if xx > pad_left pd \<and> xx < chart_w ch - pad_right pd
                           then [FillText (int_string yr) xx (chart_h ch - pad_bottom pd + 16),
                                 BeginPath, MoveTo (Some xx) (pad_top pd),
                                 LineTo (Some xx) (chart_h ch - pad_bottom pd), Stroke]
                           else [])
                 [1880, 1900, 1920, 1940, 1960, 1980, 2000, 2020])"

definition splitMarker :: "pad \<Rightarrow> chart \<Rightarrow> string \<Rightarrow> cmd list" where
  "splitMarker pd ch label =
     (let splitX = xPos pd ch 1958
      in [Save, BeginPath, MoveTo (Some splitX) (pad_top pd),
          LineTo (Some splitX) (chart_h ch - pad_bottom pd), Stroke, Restore,
          FillText label splitX (pad_top pd - 8)])"

definition axisLabel :: "pad \<Rightarrow> chart \<Rightarrow> cmd list" where
  "axisLabel pd ch =
     [Save, Translate 14 (pad_top pd + (chart_h ch - pad_top pd - pad_bottom pd) / 2),
      Rotate (- pi / 2), FillText ''COSINE DISTANCE'' 0 0, Restore]"

text \<open>The three loops over \<open>i\<close> from 0 below the number of windows: the line, the dots,
  and (in the one-series chart) the filled area under the line.\<close>

definition lineOf :: "pad \<Rightarrow> chart \<Rightarrow> real option list \<Rightarrow> real list \<Rightarrow> cmd list" where
  "lineOf pd ch ms vs =
     BeginPath #
     map (\<lambda>i. if i = 0 then MoveTo (map_option (xPos pd ch) (ms ! i)) (yPos pd ch (vs ! i))
               else LineTo (map_option (xPos pd ch) (ms ! i)) (yPos pd ch (vs ! i)))
         [0..<length ms]
     @ [Stroke]"

definition dotsOf :: "pad \<Rightarrow> chart \<Rightarrow> real option list \<Rightarrow> real list \<Rightarrow> real \<Rightarrow> cmd list" where
  "dotsOf pd ch ms vs r =
     concat (map (\<lambda>i. [BeginPath, Arc (map_option (xPos pd ch) (ms ! i)) (yPos pd ch (vs ! i)) r,
                        Fill, Stroke])
                 [0..<length ms])"

definition areaOf :: "pad \<Rightarrow> chart \<Rightarrow> real option list \<Rightarrow> real list \<Rightarrow> cmd list" where
  "areaOf pd ch ms vs =
     (if length ms > 1 then
        [BeginPath, MoveTo (map_option (xPos pd ch) (ms ! 0)) (yPos pd ch 0)]
        @ map (\<lambda>i. LineTo (map_option (xPos pd ch) (ms ! i)) (yPos pd ch (vs ! i))) [0..<length ms]
        @ [LineTo (map_option (xPos pd ch) (ms ! (length ms - 1))) (yPos pd ch 0), ClosePath, Fill]
      else [])"

text \<open>
  \<open>drawDivergence\<close> of static/js/periodicals.js. The canvas may be missing from the page
  and \<open>D.divergence\<close> from the data (\<open>None\<close>).
\<close>

definition drawDivergence :: "chart option \<Rightarrow> series option \<Rightarrow> cmd list" where
  "drawDivergence canvas divergence =
     (case canvas of
        None \<Rightarrow> []
      | Some ch \<Rightarrow>
          (case divergence of
             None \<Rightarrow> []
           | Some dv \<Rightarrow>
               (let pd = \<lparr>pad_top = 30, pad_bottom = 45, pad_left = 60, pad_right = 20\<rparr>;
                    divWindows = sort (map fst dv);
                    divMids = map windowMid divWindows;
                    divVals = map (cosine_distance dv) divWindows
                in FillRect 0 0 (chart_w ch) (chart_h ch) #
                   (if divWindows = [] then []
                    else gridLines pd ch @ yearLabels pd ch @ splitMarker pd ch ''1958: M&M''
                         @ areaOf pd ch divMids divVals
                         @ lineOf pd ch divMids divVals
                         @ dotsOf pd ch divMids divVals 4
                         @ axisLabel pd ch))))"

text \<open>The three-series versions: \<open>drawSeries\<close> draws the line and the dots of a series
  that has at least two windows, and \<open>dotRadius || 3\<close> is its radius.\<close>

definition drawSeries :: "pad \<Rightarrow> chart \<Rightarrow> real option list \<Rightarrow> real list \<Rightarrow> real \<Rightarrow> cmd list" where
  "drawSeries pd ch ms vs dotRadius =
     (if length ms < 2 then []
      else lineOf pd ch ms vs @ dotsOf pd ch ms vs (if dotRadius = 0 then 3 else dotRadius))"

definition legend :: "pad \<Rightarrow> chart \<Rightarrow> cmd list" where
  "legend pd ch =
     (let lx = pad_left pd; ly = chart_h ch - 10; lx2 = lx + 180; lx3 = lx2 + 170
      in [FillRect lx (ly - 4) 14 3, FillText ''Practitioner vs Academic'' (lx + 18) ly,
          FillRect lx2 (ly - 4) 14 3, FillText ''Practitioner vs own lag'' (lx2 + 18) ly,
          FillRect lx3 (ly - 4) 14 3, FillText ''Academic vs own lag'' (lx3 + 18) ly])"

text \<open>
  \<open>drawDivergence\<close> of the three-series versions, on \<open>D.divergence\<close> (\<open>None\<close> when
  missing: \<open>divergence || {}\<close>), \<open>pracLag\<close> and \<open>acadLag\<close>.
\<close>

definition drawDivergence_series ::
    "chart option \<Rightarrow> series option \<Rightarrow> series \<Rightarrow> series \<Rightarrow> cmd list" where
  "drawDivergence_series canvas divergence pracLag acadLag =
     (case canvas of
        None \<Rightarrow> []
      | Some ch \<Rightarrow>
          (let pd = \<lparr>pad_top = 30, pad_bottom = 55, pad_left = 60, pad_right = 20\<rparr>;
               cross = getSeries (case divergence of None \<Rightarrow> [] | Some dv \<Rightarrow> dv);
               pLag = getSeries pracLag;
               aLag = getSeries acadLag
           in FillRect 0 0 (chart_w ch) (chart_h ch) #
              (if mids cross = [] \<and> mids pLag = [] \<and> mids aLag = [] then []
               else gridLines pd ch @ yearLabels pd ch @ splitMarker pd ch ''M&M 1958''
                    @ drawSeries pd ch (mids pLag) (vals pLag) 3
                    @ drawSeries pd ch (mids aLag) (vals aLag) 3
                    @ drawSeries pd ch (mids cross) (vals cross) 4
                    @ axisLabel pd ch @ legend pd ch)))"


subsection \<open>Derived notions\<close>

text \<open>A polyline through the points in their order, and a dot of radius \<open>r\<close> at each
  point.\<close>

fun polyline :: "(real option \<times> real) list \<Rightarrow> cmd list" where
  "polyline [] = [BeginPath, Stroke]"
| "polyline ((x, y) # ps) = BeginPath # MoveTo x y # map (\<lambda>(x, y). LineTo x y) ps @ [Stroke]"

definition dotsAt :: "real \<Rightarrow> (real option \<times> real) list \<Rightarrow> cmd list" where
  "dotsAt r ps = concat (map (\<lambda>(x, y). [BeginPath, Arc x y r, Fill, Stroke]) ps)"

text \<open>The points of a divergence object: one per window key, in the ascending order of
  the keys, at the window's middle and its \<open>cosine_distance\<close>.\<close>

definition pointsOf :: "pad \<Rightarrow> chart \<Rightarrow> series \<Rightarrow> (real option \<times> real) list" where
  "pointsOf pd ch obj =
     map (\<lambda>w. (map_option (xPos pd ch) (windowMid w), yPos pd ch (cosine_distance obj w)))
         (sort (map fst obj))"

text \<open>The area between the polyline and the base line.\<close>

definition areaUnder :: "pad \<Rightarrow> chart \<Rightarrow> (real option \<times> real) list \<Rightarrow> cmd list" where
  "areaUnder pd ch ps =
     (if length ps > 1
      then [BeginPath, MoveTo (fst (hd ps)) (yPos pd ch 0)] @ map (\<lambda>(x, y). LineTo x y) ps
           @ [LineTo (fst (last ps)) (yPos pd ch 0), ClosePath, Fill]
      else [])"

definition isArc :: "cmd \<Rightarrow> bool" where
  "isArc c = (case c of Arc x y r \<Rightarrow> True | _ \<Rightarrow> False)"

definition pad1 :: pad where
  "pad1 = \<lparr>pad_top = 30, pad_bottom = 45, pad_left = 60, pad_right = 20\<rparr>"

definition pad3 :: pad where
  "pad3 = \<lparr>pad_top = 30, pad_bottom = 55, pad_left = 60, pad_right = 20\<rparr>"


section \<open>Sample data\<close>

definition book :: "string \<Rightarrow> string \<Rightarrow> string \<Rightarrow> int \<Rightarrow> bool \<Rightarrow> entry" where
  "book a t st y h =
     \<lparr>author = Str a, title = Str t, key_concepts = Str [], stream = Str st,
      topic = Str ''Valuation'', url = Absent, year = JNum y, have_it = JBool h\<rparr>"

definition noControls :: controls where
  "noControls = \<lparr>searchValue = [], streamValue = [], topicValue = [], eraValue = [], haveValue = []\<rparr>"

definition sampleBooks :: "entry list" where
  "sampleBooks =
     [book ''Williams, John Burr'' ''The Theory of Investment Value'' ''Academic'' 1938 True,
      book ''Graham, Benjamin'' ''Security Analysis'' ''Practitioner'' 1934 True,
      book ''Fisher, Irving'' ''The Rate of Interest'' ''Academic'' 1907 False,
      book ''Graham, Benjamin'' ''The Intelligent Investor'' ''Practitioner'' 1949 False]"

definition sampleSearch :: lib where
  "sampleSearch =
     start \<lparr>searchValue = '' Graham  '', streamValue = ''Practitioner'', topicValue = ''Valuation'',
            eraValue = ''1900-1958'', haveValue = ''yes''\<rparr> sampleBooks"

definition sampleState :: lib where
  "sampleState = start noControls sampleBooks"

definition sampleLib :: lib where
  "sampleLib = projr (init noControls sampleBooks)"

text \<open>Sixty-one records with a title and a year only: more than one batch.\<close>

definition manyBooks :: "entry list" where
  "manyBooks =
     replicate 61 \<lparr>author = Absent, title = Str ''Notes'', key_concepts = Absent, stream = Absent,
                   topic = Absent, url = Absent, year = JNum 1900, have_it = JNull\<rparr>"

definition manyLib :: lib where
  "manyLib = projr (init noControls manyBooks)"

definition scored :: "string \<Rightarrow> int \<Rightarrow> string \<Rightarrow> bool \<Rightarrow> point" where
  "scored a y p n =
     \<lparr>pt_author = Str a, pt_title = Str ''Finance'', pt_year = y, paradigm = Str p,
      score = Some 0, has_note = JBool n, slug = Null, key_finding = Null\<rparr>"

text \<open>A regular dot, a note dot five pixels to its right, and a note dot far away.\<close>

definition sampleDots :: "dot list" where
  "sampleDots =
     [\<lparr>pos_x = 100, pos_y = 100, pos_d = scored ''Dewing'' 1920 ''practitioner'' False\<rparr>,
      \<lparr>pos_x = 105, pos_y = 100, pos_d = scored ''Williams'' 1938 ''academic'' True\<rparr>,
      \<lparr>pos_x = 300, pos_y = 300, pos_d = scored ''Fisher'' 1930 ''academic'' True\<rparr>]"

definition sampleCanvas :: canvas where
  "sampleCanvas = \<lparr>cssWidth = 980, canvasWidth = 1960, canvasHeight = 1120, dpr = 2,
                    minYear = 1890, maxYear = 2030\<rparr>"

definition samplePoints :: "point list" where
  "samplePoints =
     [scored ''Dewing'' 1920 ''practitioner'' False, scored ''Williams'' 1938 ''academic'' True,
      scored ''Fisher'' 1930 ''academic'' True]"

definition sampleTimeline :: timeline where
  "sampleTimeline = the (tl_init 980 2 1910 1948 [] samplePoints)"

definition sampleChart :: chart where
  "sampleChart = \<lparr>chart_w = 880, chart_h = 375, chart_minYear = 1877, chart_maxYear = 2027\<rparr>"

definition sampleDivergence :: series where
  "sampleDivergence = [(''1955-1959'', 0.5), (''1900-1904'', 0.25), (''2000-2004'', 0.75)]"




section \<open>Properties of the built-ins\<close>


subsection \<open>Sorting with a comparator\<close>

lemma mset_insertBy: "mset (insertBy cmp x xs) = add_mset x (mset xs)"
  by (induction xs) simp_all

lemma mset_js_sort: "mset (js_sort cmp xs) = mset xs"
  unfolding js_sort_def by (induction xs) (simp_all add: mset_insertBy)

lemma set_insertBy: "set (insertBy cmp x xs) = insert x (set xs)"
  using mset_insertBy [of cmp x xs] by (metis set_mset_add_mset_insert set_mset_mset)

lemma length_js_sort: "length (js_sort cmp xs) = length xs"
  using mset_js_sort [of cmp xs] by (metis size_mset)

lemma sorted_wrt_insertBy:
  assumes le: "\<And>a b. cmp a b \<le> 0 \<longleftrightarrow> R a b"
      and total: "\<And>a b. R a b \<or> R b a"
      and trans: "\<And>a b c. R a b \<Longrightarrow> R b c \<Longrightarrow> R a c"
  shows "sorted_wrt R xs \<Longrightarrow> sorted_wrt R (insertBy cmp x xs)"
proof (induction xs)
  case Nil
  then show ?case by simp
next
  case (Cons y ys)
  show ?case
  proof (cases "cmp x y \<le> 0")
    case True
    then have "R x y" by (simp add: le)
    moreover have "\<forall>z\<in>set ys. R y z" using Cons.prems by simp
    ultimately have "\<forall>z\<in>set ys. R x z" using trans by blast
    with True \<open>R x y\<close> Cons.prems show ?thesis by simp
  next
    case False
    then have "R y x" using le total by blast
    with False Cons show ?thesis by (auto simp add: set_insertBy)
  qed
qed

lemma sorted_wrt_js_sort:
  assumes "\<And>a b. cmp a b \<le> 0 \<longleftrightarrow> R a b"
      and "\<And>a b. R a b \<or> R b a"
      and "\<And>a b c. R a b \<Longrightarrow> R b c \<Longrightarrow> R a c"
  shows "sorted_wrt R (js_sort cmp xs)"
  unfolding js_sort_def
  by (induction xs) (simp_all add: sorted_wrt_insertBy [where R = R, OF assms])

lemma cmp_year_asc: "compareEntries ''year'' 1 a b \<le> 0 \<longleftrightarrow> number_or_0 (year a) \<le> number_or_0 (year b)"
  by (simp add: compareEntries_def getProp_def Let_def)

lemma cmp_year_desc: "compareEntries ''year'' (- 1) a b \<le> 0 \<longleftrightarrow> number_or_0 (year b) \<le> number_or_0 (year a)"
  by (simp add: compareEntries_def getProp_def Let_def)

lemma cmp_text_asc:
  "f \<noteq> ''year'' \<Longrightarrow> compareEntries f 1 a b \<le> 0 \<longleftrightarrow>
     toLowerCase (ToString (or_empty (getProp a f))) \<le> toLowerCase (ToString (or_empty (getProp b f)))"
  by (auto simp add: compareEntries_def Let_def)

lemma cmp_text_desc:
  "f \<noteq> ''year'' \<Longrightarrow> compareEntries f (- 1) a b \<le> 0 \<longleftrightarrow>
     toLowerCase (ToString (or_empty (getProp b f))) \<le> toLowerCase (ToString (or_empty (getProp a f)))"
  by (auto simp add: compareEntries_def Let_def)



lemma starts_with_iff: "starts_with s q \<longleftrightarrow> (\<exists>v. s = q @ v)"
  by (induction s q rule: starts_with.induct) auto

lemma js_includes_iff: "js_includes h q \<longleftrightarrow> substring_of q h"
proof (induction h)
  case Nil
  then show ?case by (auto simp add: substring_of_def)
next
  case (Cons c cs)
  have "substring_of q (c # cs) \<longleftrightarrow> (\<exists>v. c # cs = q @ v) \<or> substring_of q cs"
  proof
    assume "substring_of q (c # cs)"
    then obtain u v where uv: "c # cs = u @ q @ v" by (auto simp add: substring_of_def)
    show "(\<exists>v. c # cs = q @ v) \<or> substring_of q cs"
    proof (cases u)
      case Nil
      with uv show ?thesis by auto
    next
      case (Cons a u')
      with uv have "cs = u' @ q @ v" by simp
      then show ?thesis by (auto simp add: substring_of_def)
    qed
  next
    assume "(\<exists>v. c # cs = q @ v) \<or> substring_of q cs"
    then show "substring_of q (c # cs)"
    proof
      assume "\<exists>v. c # cs = q @ v"
      then obtain v where "c # cs = [] @ q @ v" by auto
      then show ?thesis unfolding substring_of_def by blast
    next
      assume "substring_of q cs"
      then obtain u v where "cs = u @ q @ v" by (auto simp add: substring_of_def)
      then have "c # cs = (c # u) @ q @ v" by simp
      then show ?thesis unfolding substring_of_def by blast
    qed
  qed
  with Cons show ?case by (simp add: starts_with_iff)
qed

lemma filterPred_selected: "filterPred c d = selected c d"
  by (auto simp add: filterPred_def selected_def Let_def hay_def js_includes_iff)


section \<open>Properties of the library catalogue\<close>


subsection \<open>What the operations change\<close>

lemma renderBatch_frame [simp]:
  "heap (renderBatch s) = heap s" "nextFree (renderBatch s) = nextFree s"
  "dataRef (renderBatch s) = dataRef s" "filtered (renderBatch s) = filtered s"
  "authorIndex (renderBatch s) = authorIndex s"
  "multiWorkAuthors (renderBatch s) = multiWorkAuthors s"
  "sortField (renderBatch s) = sortField s" "sortDir (renderBatch s) = sortDir s"
  "ctl (renderBatch s) = ctl s" "timer (renderBatch s) = timer s"
  "journey (renderBatch s) = journey s"
  by (simp_all add: renderBatch_def Let_def)

lemma updateStats_frame [simp]:
  "heap (updateStats s) = heap s" "nextFree (updateStats s) = nextFree s"
  "dataRef (updateStats s) = dataRef s" "filtered (updateStats s) = filtered s"
  "authorIndex (updateStats s) = authorIndex s"
  "multiWorkAuthors (updateStats s) = multiWorkAuthors s"
  "sortField (updateStats s) = sortField s" "sortDir (updateStats s) = sortDir s"
  "ctl (updateStats s) = ctl s" "timer (updateStats s) = timer s"
  "journey (updateStats s) = journey s" "rendered (updateStats s) = rendered s"
  "tbody (updateStats s) = tbody s" "loadMore (updateStats s) = loadMore s"
  by (simp_all add: updateStats_def Let_def)

lemma applyFilters_frame [simp]:
  "nextFree (applyFilters s) = Suc (nextFree s)"
  "dataRef (applyFilters s) = dataRef s" "filtered (applyFilters s) = nextFree s"
  "authorIndex (applyFilters s) = authorIndex s"
  "multiWorkAuthors (applyFilters s) = multiWorkAuthors s"
  "sortField (applyFilters s) = sortField s" "sortDir (applyFilters s) = sortDir s"
  "ctl (applyFilters s) = ctl s" "timer (applyFilters s) = timer s"
  "journey (applyFilters s) = journey s"
  by (simp_all add: applyFilters_def Let_def)

lemma applyFilters_heap: "heap (applyFilters s) = (heap s)(nextFree s := view s)"
  by (simp add: applyFilters_def view_def Let_def)

lemma applyFilters_filtered: "heap (applyFilters s) (filtered (applyFilters s)) = view s"
  by (simp add: applyFilters_heap)

lemma applyFilters_new [simp]: "heap (applyFilters s) (nextFree s) = view s"
  by (simp add: applyFilters_heap)

lemma applyFilters_old [simp]: "b \<noteq> nextFree s \<Longrightarrow> heap (applyFilters s) b = heap s b"
  by (simp add: applyFilters_heap)

lemma renderBatch_rows:
  "rendered s \<le> length (heap s (filtered s)) \<Longrightarrow>
   tbody (renderBatch s) = tbody s @ map (renderRow (multiWorkAuthors s))
      (take (min BATCH_SIZE (length (heap s (filtered s)) - rendered s)) (drop (rendered s) (heap s (filtered s))))
   \<and> rendered (renderBatch s) = rendered s + min BATCH_SIZE (length (heap s (filtered s)) - rendered s)
   \<and> loadMore (renderBatch s) = (if rendered (renderBatch s) < length (heap s (filtered s)) then ''block'' else ''none'')"
  by (auto simp add: renderBatch_def Let_def BATCH_SIZE_def min_def)

lemma applyFilters_rows:
  "tbody (applyFilters s) = map (renderRow (multiWorkAuthors s)) (take BATCH_SIZE (view s))"
  "rendered (applyFilters s) = min BATCH_SIZE (length (view s))"
  "loadMore (applyFilters s) = (if BATCH_SIZE < length (view s) then ''block'' else ''none'')"
  by (auto simp add: applyFilters_def view_def Let_def renderBatch_def BATCH_SIZE_def min_def)


subsection \<open>Invariants\<close>


lemma journeyOf_frame [simp]:
  "nextFree (journeyOf src n s) = Suc (nextFree s)"
  "dataRef (journeyOf src n s) = dataRef s" "filtered (journeyOf src n s) = filtered s"
  "authorIndex (journeyOf src n s) = authorIndex s"
  "multiWorkAuthors (journeyOf src n s) = multiWorkAuthors s"
  "sortField (journeyOf src n s) = sortField s" "sortDir (journeyOf src n s) = sortDir s"
  "ctl (journeyOf src n s) = ctl s" "timer (journeyOf src n s) = timer s"
  "rendered (journeyOf src n s) = rendered s" "tbody (journeyOf src n s) = tbody s"
  "loadMore (journeyOf src n s) = loadMore s"
  by (simp_all add: journeyOf_def Let_def)

lemma journeyOf_heap: "heap (journeyOf src n s) = (heap s)(nextFree s := js_sort compareYears src)"
  by (simp add: journeyOf_def Let_def)

lemma extends_applyFilters: "extends s0 s \<Longrightarrow> extends s0 (applyFilters s)"
  by (simp add: extends_def)

lemma extends_journeyOf: "extends s0 s \<Longrightarrow> extends s0 (journeyOf src n s)"
  by (simp add: extends_def journeyOf_heap)

lemma extends_handle: "extends s0 s \<Longrightarrow> extends s0 (handle e s)"
proof (cases e)
  case (AuthorClick i)
  assume "extends s0 s"
  then show ?thesis
    using AuthorClick
    by (auto simp add: showAuthorJourney_def extends_journeyOf split: cell.splits option.splits)
qed (auto simp add: extends_def sortClick_def)

lemma run_invariant:
  assumes "\<And>e t. P t \<Longrightarrow> P (handle e t)" and "P s"
  shows "P (run es s)"
  using assms(2) unfolding run_def
  by (induction es arbitrary: s) (simp_all add: assms(1))

lemma extends_run: "extends s0 s \<Longrightarrow> extends s0 (run es s)"
  by (rule run_invariant) (auto intro: extends_handle)

lemma renderInv_renderBatch:
  "rendered s \<le> length (heap s (filtered s)) \<Longrightarrow> rendered s = length (tbody s) \<Longrightarrow>
   renderInv (renderBatch s)"
  by (auto simp add: renderInv_def renderBatch_def Let_def BATCH_SIZE_def min_def)

lemma renderInv_updateStats: "renderInv (updateStats s) = renderInv s"
  by (simp add: renderInv_def)

lemma renderInv_applyFilters: "renderInv (applyFilters s)"
  by (simp add: applyFilters_def Let_def renderInv_updateStats renderInv_renderBatch)

lemma renderInv_handle:
  assumes "renderInv s" "filtered s < nextFree s"
  shows "renderInv (handle e s)"
proof (cases e)
  case (Intersection b)
  with assms show ?thesis
    by (auto simp add: renderInv_updateStats intro!: renderInv_renderBatch) (simp_all add: renderInv_def)
next
  case (AuthorClick i)
  have "renderInv (journeyOf src n s)" for src n
    using assms by (simp add: renderInv_def journeyOf_heap)
  with assms AuthorClick show ?thesis
    by (auto simp add: showAuthorJourney_def split: cell.splits option.splits)
next
  case (SearchInput v)
  with assms show ?thesis by (simp add: renderInv_def)
next
  case JourneyClose
  with assms show ?thesis by (simp add: renderInv_def)
qed (use assms in \<open>auto simp add: renderInv_applyFilters\<close>)



lemma start_fields [simp]:
  "heap (start c ds) = (\<lambda>a. [])(0 := ds)" "nextFree (start c ds) = 1" "dataRef (start c ds) = 0"
  "filtered (start c ds) = 0" "authorIndex (start c ds) = []" "ctl (start c ds) = c"
  "sortField (start c ds) = ''year''" "sortDir (start c ds) = 1"
  by (simp_all add: start_def)

lemma allocated_iff:
  "allocated s \<longleftrightarrow>
     dataRef s < nextFree s \<and> filtered s < nextFree s
     \<and> (\<forall>k a. (k, a) \<in> set (authorIndex s) \<longrightarrow> a < nextFree s \<and> a \<noteq> dataRef s)
     \<and> distinct (map fst (authorIndex s)) \<and> distinct (map snd (authorIndex s))"
  by (auto simp add: allocated_def list_all_iff)

lemma allocatedD:
  "allocated s \<Longrightarrow> (k, a) \<in> set (authorIndex s) \<Longrightarrow> a < nextFree s \<and> a \<noteq> dataRef s"
  by (simp add: allocated_iff)

lemma allocated_pushAuthor:
  assumes "allocated s" "pushAuthor d k s = Inr s'"
  shows "allocated s' \<and> heap s' (dataRef s') = heap s (dataRef s) \<and> dataRef s' = dataRef s
         \<and> filtered s' = filtered s"
proof (cases "map_of (authorIndex s) k")
  case None
  then have k: "k \<notin> fst ` set (authorIndex s)" by (simp add: map_of_eq_None_iff)
  have fresh: "nextFree s \<notin> snd ` set (authorIndex s)"
    using allocatedD [OF assms(1)] by force
  from assms None have s': "s' = s\<lparr>heap := (heap s)(nextFree s := [d]),
                      authorIndex := authorIndex s @ [(k, nextFree s)],
                      nextFree := Suc (nextFree s)\<rparr>"
    by (auto simp add: pushAuthor_def split: if_splits)
  show ?thesis
    unfolding s' using assms(1) k fresh
    by (auto simp add: allocated_iff less_Suc_eq)
next
  case (Some a)
  then have "(k, a) \<in> set (authorIndex s)" by (rule map_of_SomeD)
  with assms Some show ?thesis
    by (auto simp add: pushAuthor_def allocated_iff dest: allocatedD [OF assms(1)])
qed

lemma allocated_pushAuthors:
  "allocated s \<Longrightarrow> pushAuthors d ks s = Inr s' \<Longrightarrow>
   allocated s' \<and> heap s' (dataRef s') = heap s (dataRef s) \<and> dataRef s' = dataRef s
   \<and> filtered s' = filtered s"
proof (induction ks arbitrary: s)
  case Nil
  then show ?case by simp
next
  case (Cons k ks)
  from Cons.prems(2) obtain t where t: "pushAuthor d k s = Inr t" "pushAuthors d ks t = Inr s'"
    by (auto split: sum.splits)
  from allocated_pushAuthor [OF Cons.prems(1) t(1)] Cons.IH [OF _ t(2)]
  show ?case by metis
qed

lemma allocated_buildIndex:
  "allocated s \<Longrightarrow> buildIndex ds s = Inr s' \<Longrightarrow>
   allocated s' \<and> heap s' (dataRef s') = heap s (dataRef s) \<and> dataRef s' = dataRef s
   \<and> filtered s' = filtered s"
proof (induction ds arbitrary: s)
  case Nil
  then show ?case by simp
next
  case (Cons d ds)
  from Cons.prems(2) obtain t where t: "pushAuthors d (getAuthorKeys (author d)) s = Inr t"
      "buildIndex ds t = Inr s'"
    by (auto split: sum.splits)
  from allocated_pushAuthors [OF Cons.prems(1) t(1)] Cons.IH [OF _ t(2)]
  show ?case by metis
qed

lemma allocated_start: "allocated (start c ds)"
  by (simp add: allocated_def)

lemma withMultiWorkAuthors_frame [simp]:
  "heap (withMultiWorkAuthors s) = heap s" "nextFree (withMultiWorkAuthors s) = nextFree s"
  "dataRef (withMultiWorkAuthors s) = dataRef s" "filtered (withMultiWorkAuthors s) = filtered s"
  "authorIndex (withMultiWorkAuthors s) = authorIndex s"
  by (simp_all add: withMultiWorkAuthors_def)

text \<open>What start-up establishes.\<close>

lemma init_state:
  assumes "init c ds = Inr s0"
  shows "allocated s0 \<and> heap s0 (dataRef s0) = ds \<and> renderInv s0 \<and> extends s0 s0
         \<and> ds \<noteq> []
         \<and> multiWorkAuthors s0
              = map fst (filter (\<lambda>(k, a). length (heap s0 a) \<ge> 2) (authorIndex s0))"
proof -
  from assms have ne: "ds \<noteq> []" by (auto simp add: init_def split: if_splits)
  with assms obtain t where t: "buildIndex ds (start c ds) = Inr t"
      and s0: "s0 = applyFilters (withMultiWorkAuthors t)"
    by (auto simp add: init_def split: sum.splits)
  from allocated_buildIndex [OF allocated_start t]
  have a: "allocated t" "heap t (dataRef t) = ds" "dataRef t = 0" "filtered t = 0" by auto
  have al: "allocated s0"
    using a(1) unfolding s0 by (auto simp add: allocated_iff less_Suc_eq)
  have d: "heap s0 (dataRef s0) = ds"
    using a unfolding s0 by (simp add: allocated_iff)
  have m: "multiWorkAuthors s0 = map fst (filter (\<lambda>(k, a). length (heap s0 a) \<ge> 2) (authorIndex s0))"
  proof -
    have "filter (\<lambda>(k, a). length (heap s0 a) \<ge> 2) (authorIndex t)
            = filter (\<lambda>(k, a). length (heap t a) \<ge> 2) (authorIndex t)"
      using a(1) unfolding s0
      by (intro filter_cong) (auto dest: allocatedD)
    then show ?thesis unfolding s0 by (simp add: withMultiWorkAuthors_def)
  qed
  have e: "extends s0 s0"
    using al by (simp add: extends_def allocated_iff)
  from al d e m ne show ?thesis
    unfolding s0 by (simp add: renderInv_applyFilters)
qed


subsection \<open>Start-up\<close>


lemma pushAuthor_frame:
  "pushAuthor d k s = Inr s' \<Longrightarrow>
   ctl s' = ctl s \<and> sortField s' = sortField s \<and> sortDir s' = sortDir s"
  by (auto simp add: pushAuthor_def split: option.splits if_splits)

lemma pushAuthors_frame:
  "pushAuthors d ks s = Inr s' \<Longrightarrow>
   ctl s' = ctl s \<and> sortField s' = sortField s \<and> sortDir s' = sortDir s"
proof (induction ks arbitrary: s)
  case Nil
  then show ?case by simp
next
  case (Cons k ks)
  from Cons.prems obtain t where t: "pushAuthor d k s = Inr t" "pushAuthors d ks t = Inr s'"
    by (auto split: sum.splits)
  from pushAuthor_frame [OF t(1)] Cons.IH [OF t(2)] show ?case by simp
qed

lemma buildIndex_frame:
  "buildIndex ds s = Inr s' \<Longrightarrow>
   ctl s' = ctl s \<and> sortField s' = sortField s \<and> sortDir s' = sortDir s"
proof (induction ds arbitrary: s)
  case Nil
  then show ?case by simp
next
  case (Cons d ds)
  from Cons.prems obtain t where t: "pushAuthors d (getAuthorKeys (author d)) s = Inr t"
      "buildIndex ds t = Inr s'"
    by (auto split: sum.splits)
  from pushAuthors_frame [OF t(1)] Cons.IH [OF t(2)] show ?case by simp
qed

text \<open>Start-up fails only on an empty dataset or on an author key that names a property
  of \<open>Object.prototype\<close>.\<close>

lemma pushAuthors_total:
  "\<forall>k\<in>set ks. k \<notin> set objectPrototypeNames \<Longrightarrow> \<exists>s'. pushAuthors d ks s = Inr s'"
proof (induction ks arbitrary: s)
  case Nil
  then show ?case by simp
next
  case (Cons k ks)
  have "\<exists>t. pushAuthor d k s = Inr t"
    using Cons.prems by (cases "map_of (authorIndex s) k") (simp_all add: pushAuthor_def)
  then obtain t where "pushAuthor d k s = Inr t" ..
  with Cons show ?case by simp
qed

lemma buildIndex_total:
  "\<forall>d\<in>set ds. \<forall>k\<in>set (getAuthorKeys (author d)). k \<notin> set objectPrototypeNames \<Longrightarrow>
   \<exists>s'. buildIndex ds s = Inr s'"
proof (induction ds arbitrary: s)
  case Nil
  then show ?case by simp
next
  case (Cons d ds)
  then obtain t where "pushAuthors d (getAuthorKeys (author d)) s = Inr t"
    using pushAuthors_total [of "getAuthorKeys (author d)" d s] by auto
  with Cons show ?case by simp
qed

lemma init_total:
  assumes "ds \<noteq> []"
      and "\<forall>d\<in>set ds. \<forall>k\<in>set (getAuthorKeys (author d)). k \<notin> set objectPrototypeNames"
  shows "\<exists>s0. init c ds = Inr s0"
  using assms(1) buildIndex_total [OF assms(2), of "start c ds"]
  by (auto simp add: init_def)

text \<open>The first list and the first batch, from the dataset and the initial controls.\<close>

lemma init_view:
  assumes "init c ds = Inr s0"
  shows "heap s0 (filtered s0) = js_sort (compareEntries ''year'' 1) (filter (filterPred c) ds)
       \<and> rendered s0 = min BATCH_SIZE (length (filter (filterPred c) ds))
       \<and> tbody s0 = map (renderRow (multiWorkAuthors s0))
                       (take BATCH_SIZE (js_sort (compareEntries ''year'' 1) (filter (filterPred c) ds)))
       \<and> sortField s0 = ''year'' \<and> sortDir s0 = 1 \<and> ctl s0 = c"
proof -
  from assms obtain t where t: "buildIndex ds (start c ds) = Inr t"
      and s0: "s0 = applyFilters (withMultiWorkAuthors t)"
    by (auto simp add: init_def split: sum.splits if_splits)
  from allocated_buildIndex [OF allocated_start t] have d: "heap t (dataRef t) = ds" by auto
  from buildIndex_frame [OF t] have f: "ctl t = c" "sortField t = ''year''" "sortDir t = 1"
    by simp_all
  let ?u = "withMultiWorkAuthors t"
  have u: "ctl ?u = c" "sortField ?u = ''year''" "sortDir ?u = 1"
    using f by (simp_all add: withMultiWorkAuthors_def)
  have v: "view ?u = js_sort (compareEntries ''year'' 1) (filter (filterPred c) ds)"
    using d u by (simp add: view_def)
  have "heap (applyFilters ?u) (filtered (applyFilters ?u)) = view ?u"
    by (rule applyFilters_filtered)
  moreover have "rendered (applyFilters ?u) = min BATCH_SIZE (length (view ?u))"
    by (rule applyFilters_rows)
  moreover have "tbody (applyFilters ?u)
      = map (renderRow (multiWorkAuthors (applyFilters ?u))) (take BATCH_SIZE (view ?u))"
    by (simp add: applyFilters_rows)
  moreover have "sortField (applyFilters ?u) = ''year''" "sortDir (applyFilters ?u) = 1"
    "ctl (applyFilters ?u) = c"
    using u by simp_all
  ultimately show ?thesis
    unfolding s0 v by (simp add: length_js_sort)
qed

lemma sampleLib_init: "init noControls sampleBooks = Inr sampleLib"
proof -
  have "list_all (\<lambda>d. list_all (\<lambda>k. k \<notin> set objectPrototypeNames) (getAuthorKeys (author d))) sampleBooks"
    by code_simp
  then have "\<forall>d\<in>set sampleBooks. \<forall>k\<in>set (getAuthorKeys (author d)). k \<notin> set objectPrototypeNames"
    by (simp add: list_all_iff)
  moreover have "sampleBooks \<noteq> []" by (simp add: sampleBooks_def)
  ultimately obtain s0 where "init noControls sampleBooks = Inr s0"
    using init_total by blast
  then show ?thesis by (simp add: sampleLib_def)
qed

lemma getAuthorKeys_Absent [simp]: "getAuthorKeys Absent = []"
  by (simp add: getAuthorKeys_def)

lemma manyLib_init: "init noControls manyBooks = Inr manyLib"
proof -
  have "\<forall>d\<in>set manyBooks. \<forall>k\<in>set (getAuthorKeys (author d)). k \<notin> set objectPrototypeNames"
    by (simp add: manyBooks_def)
  moreover have "manyBooks \<noteq> []" by (simp add: manyBooks_def)
  ultimately obtain s0 where "init noControls manyBooks = Inr s0"
    using init_total by blast
  then show ?thesis by (simp add: manyLib_def)
qed

lemma filterPred_noControls [simp]: "filterPred noControls d"
  by (simp add: filterPred_def noControls_def Let_def trim_def toLowerCase_def)


section \<open>Properties of the timeline\<close>

text \<open>The squared test is the test on the distance.\<close>

lemma within_iff:
  assumes "0 \<le> r"
  shows "(mx - pos_x p) * (mx - pos_x p) + (my - pos_y p) * (my - pos_y p) \<le> r * r
         \<longleftrightarrow> distance mx my p \<le> r"
proof -
  have "(mx - pos_x p) * (mx - pos_x p) + (my - pos_y p) * (my - pos_y p)
          = (mx - pos_x p)\<^sup>2 + (my - pos_y p)\<^sup>2"
    by (simp add: power2_eq_square)
  moreover have "r * r = r\<^sup>2" by (simp add: power2_eq_square)
  moreover have "sqrt ((mx - pos_x p)\<^sup>2 + (my - pos_y p)\<^sup>2) \<le> r
      \<longleftrightarrow> (mx - pos_x p)\<^sup>2 + (my - pos_y p)\<^sup>2 \<le> r\<^sup>2"
  proof -
    have "sqrt (r\<^sup>2) = r" using assms by simp
    then have "sqrt ((mx - pos_x p)\<^sup>2 + (my - pos_y p)\<^sup>2) \<le> r
      \<longleftrightarrow> sqrt ((mx - pos_x p)\<^sup>2 + (my - pos_y p)\<^sup>2) \<le> sqrt (r\<^sup>2)" by simp
    then show ?thesis by (simp only: real_sqrt_le_iff)
  qed
  ultimately show ?thesis by (simp add: distance_def)
qed


lemma noteHit_None:
  "n \<le> length ps \<Longrightarrow> noteHit mx my ps n = None \<longleftrightarrow> (\<forall>i<n. \<not> noteAt mx my ps i)"
proof (induction n)
  case 0
  then show ?case by simp
next
  case (Suc n)
  have r: "(0::real) \<le> DOT_R_HOVER + 2" by (simp add: DOT_R_HOVER_def)
  from Suc show ?case
    by (auto simp add: Let_def noteAt_def within_iff [OF r] less_Suc_eq)
qed

lemma noteHit_Some:
  "n \<le> length ps \<Longrightarrow> noteHit mx my ps n = Some i \<longleftrightarrow>
     (i < n \<and> noteAt mx my ps i \<and> (\<forall>j. i < j \<and> j < n \<longrightarrow> \<not> noteAt mx my ps j))"
proof (induction n)
  case 0
  then show ?case by simp
next
  case (Suc n)
  have r: "(0::real) \<le> DOT_R_HOVER + 2" by (simp add: DOT_R_HOVER_def)
  from Suc show ?case
    by (auto simp add: Let_def noteAt_def within_iff [OF r] less_Suc_eq)
qed

lemma regularHit_None:
  "n \<le> length ps \<Longrightarrow> regularHit mx my ps n = None \<longleftrightarrow> (\<forall>i<n. \<not> regularAt mx my ps i)"
proof (induction n)
  case 0
  then show ?case by simp
next
  case (Suc n)
  have r: "(0::real) \<le> DOT_R + 6" by (simp add: DOT_R_def)
  from Suc show ?case
    by (auto simp add: Let_def regularAt_def within_iff [OF r] less_Suc_eq)
qed

lemma regularHit_Some:
  "n \<le> length ps \<Longrightarrow> regularHit mx my ps n = Some i \<longleftrightarrow>
     (i < n \<and> regularAt mx my ps i \<and> (\<forall>j. i < j \<and> j < n \<longrightarrow> \<not> regularAt mx my ps j))"
proof (induction n)
  case 0
  then show ?case by simp
next
  case (Suc n)
  have r: "(0::real) \<le> DOT_R + 6" by (simp add: DOT_R_def)
  from Suc show ?case
    by (auto simp add: Let_def regularAt_def within_iff [OF r] less_Suc_eq)
qed


subsection \<open>Buckets\<close>

lemma foldl_plus: "foldl (+) a ys = a + sum_list (ys :: real list)"
  by (induction ys arbitrary: a) simp_all

lemma map_of_bucket_update:
  "map_of (map (\<lambda>(k, v). if k = d then (k, v @ [y]) else (k, v)) bs) k
     = (if k = d then map_option (\<lambda>v. v @ [y]) (map_of bs k) else map_of bs k)"
  by (induction bs) auto

lemma keys_bucket_update:
  "map fst (map (\<lambda>(k, v). if k = d then (k, v @ [y]) else (k, v)) bs) = map fst bs"
  by (induction bs) auto

lemma pushBucket_keys:
  "map fst (pushBucket bs p)
     = (if decadeOf p \<in> set (map fst bs) then map fst bs else map fst bs @ [decadeOf p])"
proof (cases "map_of bs (decadeOf p)")
  case None
  then have "decadeOf p \<notin> set (map fst bs)" by (simp add: map_of_eq_None_iff)
  with None show ?thesis by (simp add: pushBucket_def)
next
  case (Some ys)
  then have "decadeOf p \<in> set (map fst bs)" by (metis map_of_eq_None_iff option.distinct(1) set_map)
  with Some show ?thesis by (simp add: pushBucket_def) (auto split: prod.splits)
qed

lemma pushBucket_bucketOf:
  "bucketOf (pushBucket bs p) k
     = (if k = decadeOf p then bucketOf bs k @ [pos_y p] else bucketOf bs k)"
proof (cases "map_of bs (decadeOf p)")
  case None
  then show ?thesis
    by (auto simp add: pushBucket_def bucketOf_def map_add_def split: option.splits)
next
  case (Some ys)
  then show ?thesis
    by (auto simp add: pushBucket_def bucketOf_def map_of_bucket_update split: option.splits)
qed

lemma buckets_keys:
  "distinct (map fst bs) \<Longrightarrow>
   distinct (map fst (foldl pushBucket bs pts))
   \<and> set (map fst (foldl pushBucket bs pts)) = set (map fst bs) \<union> decadeOf ` set pts"
proof (induction pts arbitrary: bs)
  case Nil
  then show ?case by simp
next
  case (Cons p pts)
  have "distinct (map fst (pushBucket bs p))"
    using Cons.prems by (simp add: pushBucket_keys)
  from Cons.IH [OF this] show ?case
    by (auto simp add: pushBucket_keys split: if_splits)
qed

lemma buckets_content:
  "bucketOf (foldl pushBucket bs pts) k
     = bucketOf bs k @ map pos_y (filter (\<lambda>p. decadeOf p = k) pts)"
  by (induction pts arbitrary: bs) (auto simp add: pushBucket_bucketOf)

lemma sort_keys:
  assumes "distinct (ks :: int list)"
  shows "js_sort (\<lambda>a b. a - b) ks = sorted_list_of_set (set ks)"
proof -
  have "sorted_wrt (\<le>) (js_sort (\<lambda>a b. a - b) ks)"
    by (rule sorted_wrt_js_sort) auto
  moreover have "distinct (js_sort (\<lambda>a b. a - b) ks)"
    using assms mset_js_sort [of "\<lambda>a b. a - b" ks] by (metis distinct_count_atmost_1 set_mset_mset)
  moreover have "set (js_sort (\<lambda>a b. a - b) ks) = set ks"
    using mset_js_sort [of "\<lambda>a b. a - b" ks] by (metis set_mset_mset)
  ultimately show ?thesis
    by (metis sorted_list_of_set.idem_if_sorted_distinct)
qed



subsection \<open>The author index\<close>

lemma map_of_distinct_snd:
  "distinct (map snd xs) \<Longrightarrow> map_of xs k = Some a \<Longrightarrow> map_of xs k' = Some a \<Longrightarrow> k = k'"
proof (induction xs)
  case Nil
  then show ?case by simp
next
  case (Cons x xs)
  obtain k0 a0 where x: "x = (k0, a0)" by (cases x)
  have "a0 \<notin> snd ` set xs" using Cons.prems(1) x by auto
  then have no: "map_of xs j \<noteq> Some a0" for j
    by (metis map_of_SomeD snd_conv image_eqI)
  from Cons x no show ?case by (auto split: if_splits)
qed

lemma worksOf_pushAuthor:
  assumes "allocated s" "pushAuthor d k s = Inr s'"
  shows "worksOf s' k' = (if k' = k then worksOf s k @ [d] else worksOf s k')"
proof (cases "map_of (authorIndex s) k")
  case None
  then have k: "k \<notin> fst ` set (authorIndex s)" by (simp add: map_of_eq_None_iff)
  from assms None have s': "s' = s\<lparr>heap := (heap s)(nextFree s := [d]),
                      authorIndex := authorIndex s @ [(k, nextFree s)],
                      nextFree := Suc (nextFree s)\<rparr>"
    by (auto simp add: pushAuthor_def split: if_splits)
  have old: "a \<noteq> nextFree s" if "map_of (authorIndex s) k' = Some a" for a
    using allocatedD [OF assms(1) map_of_SomeD [OF that]] by simp
  show ?thesis
  proof (cases "k' = k")
    case True
    with None show ?thesis by (simp add: s' worksOf_def map_add_def)
  next
    case False
    then show ?thesis
      using old by (auto simp add: s' worksOf_def map_add_def split: option.splits)
  qed
next
  case (Some a)
  with assms have s': "s' = s\<lparr>heap := (heap s)(a := heap s a @ [d])\<rparr>"
    by (simp add: pushAuthor_def)
  have d: "distinct (map snd (authorIndex s))" using assms(1) by (simp add: allocated_iff)
  show ?thesis
  proof (cases "k' = k")
    case True
    with Some show ?thesis by (simp add: s' worksOf_def)
  next
    case False
    have "a' \<noteq> a" if "map_of (authorIndex s) k' = Some a'" for a'
      using map_of_distinct_snd [OF d Some, of k'] that False by auto
    with False show ?thesis
      by (auto simp add: s' worksOf_def split: option.splits)
  qed
qed

lemma worksOf_pushAuthors:
  "allocated s \<Longrightarrow> pushAuthors d ks s = Inr s' \<Longrightarrow>
   worksOf s' k = worksOf s k @ replicate (count_list ks k) d"
proof (induction ks arbitrary: s)
  case Nil
  then show ?case by simp
next
  case (Cons j ks)
  from Cons.prems(2) obtain t where t: "pushAuthor d j s = Inr t" "pushAuthors d ks t = Inr s'"
    by (auto split: sum.splits)
  from allocated_pushAuthor [OF Cons.prems(1) t(1)] have "allocated t" by simp
  from Cons.IH [OF this t(2)] worksOf_pushAuthor [OF Cons.prems(1) t(1), of k]
  show ?case by (simp add: replicate_app_Cons_same)
qed

lemma worksOf_buildIndex:
  "allocated s \<Longrightarrow> buildIndex ds s = Inr s' \<Longrightarrow>
   worksOf s' k = worksOf s k @ indexedUnder k ds"
proof (induction ds arbitrary: s)
  case Nil
  then show ?case by (simp add: indexedUnder_def)
next
  case (Cons d ds)
  from Cons.prems(2) obtain t where t: "pushAuthors d (getAuthorKeys (author d)) s = Inr t"
      "buildIndex ds t = Inr s'"
    by (auto split: sum.splits)
  from allocated_pushAuthors [OF Cons.prems(1) t(1)] have "allocated t" by simp
  from Cons.IH [OF this t(2)] worksOf_pushAuthors [OF Cons.prems(1) t(1), of k]
  show ?case by (simp add: indexedUnder_def)
qed

lemma worksOf_init:
  assumes "init c ds = Inr s0"
  shows "worksOf s0 k = indexedUnder k ds"
proof -
  from assms obtain t where t: "buildIndex ds (start c ds) = Inr t"
      and s0: "s0 = applyFilters (withMultiWorkAuthors t)"
    by (auto simp add: init_def split: sum.splits if_splits)
  from allocated_buildIndex [OF allocated_start t] have al: "allocated t" by simp
  have "worksOf t k = indexedUnder k ds"
    using worksOf_buildIndex [OF allocated_start t, of k] by (simp add: worksOf_def)
  moreover have "worksOf s0 k = worksOf t k"
  proof (cases "map_of (authorIndex t) k")
    case None
    then show ?thesis by (simp add: s0 worksOf_def)
  next
    case (Some a)
    from allocatedD [OF al map_of_SomeD [OF Some]] have "a \<noteq> nextFree t" by simp
    with Some show ?thesis by (simp add: s0 worksOf_def)
  qed
  ultimately show ?thesis by simp
qed

lemma worksOf_extends:
  assumes "allocated s0" "extends s0 s"
  shows "worksOf s k = worksOf s0 k"
  using assms allocatedD [OF assms(1)]
  by (auto simp add: worksOf_def extends_def split: option.splits dest!: map_of_SomeD)


subsection \<open>Rows and the journey panel\<close>












subsection \<open>What the timeline changes\<close>

lemma draw_frame [simp]:
  "tl_nextFree (draw s) = Suc (tl_nextFree s)" "tl_dataRef (draw s) = tl_dataRef s"
  "tl_heap (draw s) = (tl_heap s)(tl_nextFree s := getFiltered (tl_filter s) (tl_heap s (tl_dataRef s)))"
  by (simp_all add: draw_def Let_def)

lemma showPopup_frame [simp]:
  "tl_nextFree (showPopup d p s) = tl_nextFree s" "tl_dataRef (showPopup d p s) = tl_dataRef s"
  "tl_heap (showPopup d p s) = tl_heap s"
  by (simp_all add: showPopup_def Let_def)

lemma hidePopup_frame [simp]:
  "tl_nextFree (hidePopup s) = tl_nextFree s" "tl_dataRef (hidePopup s) = tl_dataRef s"
  "tl_heap (hidePopup s) = tl_heap s"
  by (simp_all add: hidePopup_def)

lemma resize_frame [simp]:
  "tl_nextFree (resize w s) = tl_nextFree s" "tl_dataRef (resize w s) = tl_dataRef s"
  "tl_heap (resize w s) = tl_heap s"
  by (simp_all add: resize_def)

lemma tl_handle_frame:
  assumes "tl_allocated s"
  shows "tl_allocated (tl_handle e s) \<and> tl_dataRef (tl_handle e s) = tl_dataRef s
         \<and> tl_heap (tl_handle e s) (tl_dataRef s) = tl_heap s (tl_dataRef s)"
  using assms by (cases e) (auto simp add: tl_allocated_def Let_def)

lemma tl_run_frame:
  "tl_allocated s \<Longrightarrow>
   tl_allocated (tl_run es s) \<and> tl_dataRef (tl_run es s) = tl_dataRef s
   \<and> tl_heap (tl_run es s) (tl_dataRef s) = tl_heap s (tl_dataRef s)"
proof (induction es arbitrary: s)
  case Nil
  then show ?case by (simp add: tl_run_def)
next
  case (Cons e es)
  from tl_handle_frame [OF Cons.prems, of e] Cons.IH [of "tl_handle e s"]
  show ?case by (simp add: tl_run_def)
qed

lemma tl_init_state:
  assumes "tl_init w ratio lo hi site pts = Some t0"
  shows "tl_allocated t0 \<and> tl_heap t0 (tl_dataRef t0) = pts \<and> pts \<noteq> []"
  using assms by (auto simp add: tl_init_def tl_allocated_def split: if_splits)

lemma init_fresh:
  assumes "init c ds = Inr s0"
  shows "dataRef s0 < filtered s0 \<and> (\<forall>(k, a)\<in>set (authorIndex s0). a < filtered s0)"
proof -
  from assms obtain t where t: "buildIndex ds (start c ds) = Inr t"
      and s0: "s0 = applyFilters (withMultiWorkAuthors t)"
    by (auto simp add: init_def split: sum.splits if_splits)
  from allocated_buildIndex [OF allocated_start t] have al: "allocated t" by simp
  then show ?thesis
    unfolding s0 by (auto simp add: allocated_iff)
qed

lemma sampleTimeline_init: "tl_init 980 2 1910 1948 [] samplePoints = Some sampleTimeline"
  by (simp add: sampleTimeline_def tl_init_def samplePoints_def)


section \<open>Properties of the divergence chart\<close>

lemma upt_indices:
  "map (\<lambda>i. if i = 0 then f (xs ! i) else g (xs ! i)) [0..<length xs]
     = (case xs of [] \<Rightarrow> [] | x # ys \<Rightarrow> f x # map g ys)"
proof (cases xs)
  case Nil
  then show ?thesis by simp
next
  case (Cons x ys)
  have "[0..<length (x # ys)] = 0 # map Suc [0..<length ys]"
    by (simp add: upt_conv_Cons map_Suc_upt del: upt_Suc)
  then have "map (\<lambda>i. if i = 0 then f ((x # ys) ! i) else g ((x # ys) ! i)) [0..<length (x # ys)]
      = f x # map (\<lambda>i. g (ys ! i)) [0..<length ys]"
    by (simp add: comp_def del: upt_Suc)
  also have "map (\<lambda>i. g (ys ! i)) [0..<length ys] = map g ys"
    by (simp add: map_nth flip: map_map [unfolded comp_def])
  finally show ?thesis unfolding Cons by (simp only: list.case)
qed

lemma nth_indices: "map (\<lambda>i. f (xs ! i)) [0..<length xs] = map f xs"
  by (rule nth_equalityI) simp_all

lemma lineOf_polyline:
  "lineOf pd ch (map m ws) (map v ws)
     = polyline (map (\<lambda>w. (map_option (xPos pd ch) (m w), yPos pd ch (v w))) ws)"
proof -
  let ?P = "\<lambda>w. (map_option (xPos pd ch) (m w), yPos pd ch (v w))"
  have "map (\<lambda>i. if i = 0 then MoveTo (map_option (xPos pd ch) (map m ws ! i)) (yPos pd ch (map v ws ! i))
               else LineTo (map_option (xPos pd ch) (map m ws ! i)) (yPos pd ch (map v ws ! i)))
         [0..<length (map m ws)]
      = map (\<lambda>i. if i = 0 then (\<lambda>w. MoveTo (fst (?P w)) (snd (?P w))) (ws ! i)
                  else (\<lambda>w. LineTo (fst (?P w)) (snd (?P w))) (ws ! i)) [0..<length ws]"
    by (rule map_cong) auto
  also have "\<dots> = (case ws of [] \<Rightarrow> []
                    | x # ys \<Rightarrow> MoveTo (fst (?P x)) (snd (?P x)) # map (\<lambda>w. LineTo (fst (?P w)) (snd (?P w))) ys)"
    by (rule upt_indices)
  finally have eq: "map (\<lambda>i. if i = 0 then MoveTo (map_option (xPos pd ch) (map m ws ! i)) (yPos pd ch (map v ws ! i))
               else LineTo (map_option (xPos pd ch) (map m ws ! i)) (yPos pd ch (map v ws ! i)))
         [0..<length (map m ws)]
      = (case ws of [] \<Rightarrow> []
                    | x # ys \<Rightarrow> MoveTo (fst (?P x)) (snd (?P x)) # map (\<lambda>w. LineTo (fst (?P w)) (snd (?P w))) ys)" .
  show ?thesis
    unfolding lineOf_def eq by (cases ws) (simp_all add: comp_def)
qed

lemma dotsOf_dotsAt:
  "dotsOf pd ch (map m ws) (map v ws) r
     = dotsAt r (map (\<lambda>w. (map_option (xPos pd ch) (m w), yPos pd ch (v w))) ws)"
proof -
  have "map (\<lambda>i. [BeginPath, Arc (map_option (xPos pd ch) (map m ws ! i)) (yPos pd ch (map v ws ! i)) r,
                   Fill, Stroke]) [0..<length (map m ws)]
      = map (\<lambda>i. (\<lambda>w. [BeginPath, Arc (map_option (xPos pd ch) (m w)) (yPos pd ch (v w)) r, Fill, Stroke]) (ws ! i))
          [0..<length ws]"
    by (rule map_cong) simp_all
  also have "\<dots> = map (\<lambda>w. [BeginPath, Arc (map_option (xPos pd ch) (m w)) (yPos pd ch (v w)) r, Fill, Stroke]) ws"
    by (rule nth_indices)
  finally show ?thesis by (simp add: dotsOf_def dotsAt_def comp_def)
qed

lemma areaOf_areaUnder:
  "areaOf pd ch (map m ws) (map v ws)
     = areaUnder pd ch (map (\<lambda>w. (map_option (xPos pd ch) (m w), yPos pd ch (v w))) ws)"
proof -
  have "map (\<lambda>i. LineTo (map_option (xPos pd ch) (map m ws ! i)) (yPos pd ch (map v ws ! i)))
          [0..<length (map m ws)]
      = map (\<lambda>i. (\<lambda>w. LineTo (map_option (xPos pd ch) (m w)) (yPos pd ch (v w))) (ws ! i)) [0..<length ws]"
    by (rule map_cong) simp_all
  also have "\<dots> = map (\<lambda>w. LineTo (map_option (xPos pd ch) (m w)) (yPos pd ch (v w))) ws"
    by (rule nth_indices)
  finally have l: "map (\<lambda>i. LineTo (map_option (xPos pd ch) (map m ws ! i)) (yPos pd ch (map v ws ! i)))
          [0..<length (map m ws)]
      = map (\<lambda>w. LineTo (map_option (xPos pd ch) (m w)) (yPos pd ch (v w))) ws" .
  show ?thesis
  proof (cases "length ws > 1")
    case True
    then have "ws \<noteq> []" by auto
    with True show ?thesis
      unfolding areaOf_def areaUnder_def l
      by (simp add: comp_def hd_map last_map hd_conv_nth last_conv_nth)
  next
    case False
    then show ?thesis by (simp add: areaOf_def areaUnder_def)
  qed
qed


subsection \<open>Reading a year back from a window key\<close>

lemma digit_char:
  assumes "k < 10"
  shows "of_char (''0123456789'' ! k) = 48 + k"
proof -
  from assms have "k = 0 \<or> k = 1 \<or> k = 2 \<or> k = 3 \<or> k = 4 \<or> k = 5 \<or> k = 6 \<or> k = 7 \<or> k = 8 \<or> k = 9"
    by auto
  then show ?thesis by (elim disjE) simp_all
qed

lemma nat_digits_digits: "nat_digits n \<noteq> [] \<and> list_all is_digit (nat_digits n)"
proof (induction n rule: nat_digits.induct)
  case (1 n)
  show ?case
  proof (cases "n < 10")
    case True
    then show ?thesis
      by (subst nat_digits.simps, subst (2) nat_digits.simps) (simp add: is_digit_def digit_char)
  next
    case False
    have "n mod 10 < 10" by simp
    then have "is_digit (''0123456789'' ! (n mod 10))"
      using digit_char [of "n mod 10"] unfolding is_digit_def by linarith
    with False 1 show ?thesis
      by (subst nat_digits.simps, subst (2) nat_digits.simps) simp
  qed
qed

lemma digits_value_snoc: "digits_value (xs @ [c]) = 10 * digits_value xs + (int (of_char c) - 48)"
  by (simp add: digits_value_def)

lemma digits_value_nat_digits: "digits_value (nat_digits n) = int n"
proof (induction n rule: nat_digits.induct)
  case (1 n)
  show ?case
  proof (cases "n < 10")
    case True
    then show ?thesis
      by (subst nat_digits.simps) (simp add: digits_value_def digit_char)
  next
    case False
    have "n mod 10 < 10" by simp
    then have "int (of_char (''0123456789'' ! (n mod 10))) - 48 = int (n mod 10)"
      using digit_char [of "n mod 10"] by linarith
    with False 1 have "digits_value (nat_digits n) = 10 * int (n div 10) + int (n mod 10)"
      by (subst nat_digits.simps) (simp add: digits_value_snoc)
    then show ?thesis by (simp add: zdiv_int zmod_int)
  qed
qed

lemma digit_not_other:
  assumes "is_digit c"
  shows "\<not> is_space c" "c \<noteq> CHR ''-''" "c \<noteq> CHR ''+''" "c \<noteq> CHR ''x''" "c \<noteq> CHR ''X''"
proof -
  from assms have r: "48 \<le> (of_char c :: nat)" "(of_char c :: nat) \<le> 57"
    by (simp_all add: is_digit_def)
  show "\<not> is_space c" using r by (auto simp add: is_space_def)
  have "(of_char c :: nat) \<noteq> of_char (CHR ''-'')" "(of_char c :: nat) \<noteq> of_char (CHR ''+'')"
    "(of_char c :: nat) \<noteq> of_char (CHR ''x'')" "(of_char c :: nat) \<noteq> of_char (CHR ''X'')"
    using r by simp_all
  then show "c \<noteq> CHR ''-''" "c \<noteq> CHR ''+''" "c \<noteq> CHR ''x''" "c \<noteq> CHR ''X''"
    by blast+
qed

lemma parseInt_digits:
  assumes "ds \<noteq> []" "list_all is_digit ds"
  shows "parseInt ds = Some (digits_value ds)"
proof -
  from assms obtain c cs where ds: "ds = c # cs" by (cases ds) auto
  with assms have c: "is_digit c" and cs: "list_all is_digit cs" by simp_all
  have tw: "takeWhile is_digit (c # cs) = c # cs"
    using c cs by (simp add: list_all_iff takeWhile_eq_all_conv)
  have two: "take 2 (c # cs) \<noteq> ''0x'' \<and> take 2 (c # cs) \<noteq> ''0X''"
  proof (cases cs)
    case Nil
    then show ?thesis by simp
  next
    case (Cons d ds')
    with cs have "is_digit d" by simp
    from digit_not_other(4,5) [OF this] Cons show ?thesis by simp
  qed
  have "parseDigits (c # cs) = Some (digits_value (c # cs))"
    by (simp only: parseDigits_def two tw simp_thms if_False list.distinct)
  then show ?thesis
    using digit_not_other [OF c] by (simp add: parseInt_def ds)
qed

lemma windowMid_start:
  "windowMid (nat_digits n @ CHR ''-'' # rest) = Some (real n + 2)"
proof -
  from nat_digits_digits [of n]
  have ne: "nat_digits n \<noteq> []" and dg: "list_all is_digit (nat_digits n)" by simp_all
  have "\<forall>c\<in>set (nat_digits n). c \<noteq> CHR ''-''"
    using dg digit_not_other(2) by (auto simp add: list_all_iff)
  then have "takeWhile (\<lambda>c. c \<noteq> CHR ''-'') (nat_digits n @ CHR ''-'' # rest) = nat_digits n"
    by (simp add: takeWhile_tail takeWhile_eq_all_conv)
  then show ?thesis
    by (simp add: windowMid_def parseInt_digits [OF ne dg] digits_value_nat_digits)
qed


subsection \<open>The dots among the calls\<close>

lemma arcs_concat_none:
  "(\<And>x. x \<in> set xs \<Longrightarrow> filter isArc (f x) = []) \<Longrightarrow> filter isArc (concat (map f xs)) = []"
  by (induction xs) simp_all

lemma arcs_decorations [simp]:
  "filter isArc (gridLines pd ch) = []" "filter isArc (yearLabels pd ch) = []"
  "filter isArc (splitMarker pd ch l) = []" "filter isArc (axisLabel pd ch) = []"
  "filter isArc (legend pd ch) = []"
proof -
  show "filter isArc (gridLines pd ch) = []"
    unfolding gridLines_def by (rule arcs_concat_none) (auto simp add: isArc_def)
  show "filter isArc (yearLabels pd ch) = []"
    unfolding yearLabels_def by (rule arcs_concat_none) (auto simp add: isArc_def Let_def)
  show "filter isArc (splitMarker pd ch l) = []"
    by (simp add: splitMarker_def Let_def isArc_def)
  show "filter isArc (axisLabel pd ch) = []"
    by (simp add: axisLabel_def isArc_def)
  show "filter isArc (legend pd ch) = []"
    by (simp add: legend_def Let_def isArc_def)
qed

lemma arcs_lines [simp]: "filter isArc (map (\<lambda>(x, y). LineTo x y) ps) = []"
  by (induction ps) (auto simp add: isArc_def)

lemma arcs_polyline [simp]: "filter isArc (polyline ps) = []"
  by (cases ps rule: polyline.cases) (simp_all add: isArc_def)

lemma arcs_areaUnder [simp]: "filter isArc (areaUnder pd ch ps) = []"
  by (simp add: areaUnder_def isArc_def)

lemma arcs_dotsAt [simp]: "filter isArc (dotsAt r ps) = map (\<lambda>(x, y). Arc x y r) ps"
  by (induction ps) (auto simp add: dotsAt_def isArc_def)

lemma getSeries_points:
  "lineOf pd ch (mids (getSeries obj)) (vals (getSeries obj)) = polyline (pointsOf pd ch obj)"
  "dotsOf pd ch (mids (getSeries obj)) (vals (getSeries obj)) r = dotsAt r (pointsOf pd ch obj)"
  "length (mids (getSeries obj)) = length obj"
  by (simp_all add: getSeries_def Let_def pointsOf_def lineOf_polyline dotsOf_dotsAt)

lemma drawSeries_points:
  "drawSeries pd ch (mids (getSeries obj)) (vals (getSeries obj)) r
     = (if length obj < 2 then []
        else polyline (pointsOf pd ch obj) @ dotsAt (if r = 0 then 3 else r) (pointsOf pd ch obj))"
  by (simp add: drawSeries_def getSeries_points)

lemma sort_empty: "sort xs = [] \<longleftrightarrow> xs = []"
  by (metis length_sort length_0_conv)

lemma drawDivergence_points:
  "drawDivergence (Some ch) (Some dv)
     = FillRect 0 0 (chart_w ch) (chart_h ch) #
       (if dv = [] then []
        else gridLines pad1 ch @ yearLabels pad1 ch @ splitMarker pad1 ch ''1958: M&M''
             @ areaUnder pad1 ch (pointsOf pad1 ch dv)
             @ polyline (pointsOf pad1 ch dv)
             @ dotsAt 4 (pointsOf pad1 ch dv)
             @ axisLabel pad1 ch)"
  by (simp add: drawDivergence_def Let_def sort_empty pointsOf_def lineOf_polyline
        dotsOf_dotsAt areaOf_areaUnder flip: pad1_def)

lemma drawDivergence_series_points:
  "drawDivergence_series (Some ch) (Some dv) pl al
     = FillRect 0 0 (chart_w ch) (chart_h ch) #
       (if dv = [] \<and> pl = [] \<and> al = [] then []
        else gridLines pad3 ch @ yearLabels pad3 ch @ splitMarker pad3 ch ''M&M 1958''
             @ (if length pl < 2 then []
                else polyline (pointsOf pad3 ch pl) @ dotsAt 3 (pointsOf pad3 ch pl))
             @ (if length al < 2 then []
                else polyline (pointsOf pad3 ch al) @ dotsAt 3 (pointsOf pad3 ch al))
             @ (if length dv < 2 then []
                else polyline (pointsOf pad3 ch dv) @ dotsAt 4 (pointsOf pad3 ch dv))
             @ axisLabel pad3 ch @ legend pad3 ch)"
  unfolding drawDivergence_series_def Let_def pad3_def [symmetric]
  by (simp add: drawSeries_points) (simp add: getSeries_def Let_def sort_empty)


subsection \<open>Era ranges\<close>


lemma filterPred_eraOnly:
  "filterPred (eraOnly era) d =
     (era = [] \<or> (fst (getEraRange era) \<le> number_or_0 (year d) \<and> number_or_0 (year d) \<le> snd (getEraRange era)))"
  by (auto simp add: filterPred_def eraOnly_def Let_def trim_def toLowerCase_def)

lemma era_cases:
  "(era \<in> set eraNames \<and> filterPred (eraOnly era) d) =
     ((era = ''pre-1800'' \<and> 0 \<le> number_or_0 (year d) \<and> number_or_0 (year d) \<le> 1799) \<or>
      (era = ''1800-1900'' \<and> 1800 \<le> number_or_0 (year d) \<and> number_or_0 (year d) \<le> 1900) \<or>
      (era = ''1900-1958'' \<and> 1901 \<le> number_or_0 (year d) \<and> number_or_0 (year d) \<le> 1957) \<or>
      (era = ''1958-1980'' \<and> 1958 \<le> number_or_0 (year d) \<and> number_or_0 (year d) \<le> 1980) \<or>
      (era = ''1980-present'' \<and> 1981 \<le> number_or_0 (year d) \<and> number_or_0 (year d) \<le> 9999))"
  unfolding filterPred_eraOnly by (auto simp add: eraNames_def getEraRange_def)

lemma era_unique:
  assumes "0 \<le> number_or_0 (year d)" "number_or_0 (year d) \<le> 9999"
  shows "\<exists>!era. era \<in> set eraNames \<and> filterPred (eraOnly era) d"
proof -
  let ?y = "number_or_0 (year d)"
  consider "?y \<le> 1799" | "1800 \<le> ?y \<and> ?y \<le> 1900" | "1901 \<le> ?y \<and> ?y \<le> 1957"
    | "1958 \<le> ?y \<and> ?y \<le> 1980" | "1981 \<le> ?y" by linarith
  then show ?thesis
  proof cases
    case 1
    with assms have "\<And>era. (era \<in> set eraNames \<and> filterPred (eraOnly era) d) = (era = ''pre-1800'')"
      unfolding era_cases by auto
    then show ?thesis by simp
  next
    case 2
    with assms have "\<And>era. (era \<in> set eraNames \<and> filterPred (eraOnly era) d) = (era = ''1800-1900'')"
      unfolding era_cases by auto
    then show ?thesis by simp
  next
    case 3
    with assms have "\<And>era. (era \<in> set eraNames \<and> filterPred (eraOnly era) d) = (era = ''1900-1958'')"
      unfolding era_cases by auto
    then show ?thesis by simp
  next
    case 4
    with assms have "\<And>era. (era \<in> set eraNames \<and> filterPred (eraOnly era) d) = (era = ''1958-1980'')"
      unfolding era_cases by auto
    then show ?thesis by simp
  next
    case 5
    with assms have "\<And>era. (era \<in> set eraNames \<and> filterPred (eraOnly era) d) = (era = ''1980-present'')"
      unfolding era_cases by auto
    then show ?thesis by simp
  qed
qed

text \<open>
  C10. The ranges of the five era names are \<open>[0,1799]\<close>, \<open>[1800,1900]\<close>, \<open>[1901,1957]\<close>,
  \<open>[1958,1980]\<close> and \<open>[1981,9999]\<close>. A record whose year (\<open>Number(d.year) || 0\<close>) lies
  between 0 and 9999 passes the era filter for exactly one of the five names; the year
  1900 passes only \<open>1800-1900\<close> and the year 1958 only \<open>1958-1980\<close>.
\<close>

theorem era_ranges_partition:
  "map getEraRange eraNames = [(0, 1799), (1800, 1900), (1901, 1957), (1958, 1980), (1981, 9999)]
   \<and> (0 \<le> number_or_0 (year d) \<and> number_or_0 (year d) \<le> 9999
        \<longrightarrow> (\<exists>!era. era \<in> set eraNames \<and> filterPred (eraOnly era) d))
   \<and> (number_or_0 (year d) = 1900
        \<longrightarrow> (\<forall>era. era \<in> set eraNames \<and> filterPred (eraOnly era) d \<longleftrightarrow> era = ''1800-1900''))
   \<and> (number_or_0 (year d) = 1958
        \<longrightarrow> (\<forall>era. era \<in> set eraNames \<and> filterPred (eraOnly era) d \<longleftrightarrow> era = ''1958-1980''))"
proof (intro conjI impI)
  show "map getEraRange eraNames = [(0, 1799), (1800, 1900), (1901, 1957), (1958, 1980), (1981, 9999)]"
    by (simp add: eraNames_def getEraRange_def)
next
  assume "0 \<le> number_or_0 (year d) \<and> number_or_0 (year d) \<le> 9999"
  then show "\<exists>!era. era \<in> set eraNames \<and> filterPred (eraOnly era) d"
    by (simp add: era_unique)
next
  assume "number_or_0 (year d) = 1900"
  then show "\<forall>era. era \<in> set eraNames \<and> filterPred (eraOnly era) d \<longleftrightarrow> era = ''1800-1900''"
    unfolding era_cases by auto
next
  assume "number_or_0 (year d) = 1958"
  then show "\<forall>era. era \<in> set eraNames \<and> filterPred (eraOnly era) d \<longleftrightarrow> era = ''1958-1980''"
    unfolding era_cases by auto
qed

text \<open>The property at a book of the year 1900.\<close>

theorem era_ranges_partition_witness:
  "(0::int) \<le> 1900 \<and> (1900::int) \<le> 9999
   \<and> number_or_0 (year (book ''Fisher, Irving'' ''The Rate'' ''Academic'' 1900 True)) = 1900
   \<and> (\<exists>!era. era \<in> set eraNames \<and> filterPred (eraOnly era) (book ''Fisher, Irving'' ''The Rate'' ''Academic'' 1900 True))
   \<and> (\<forall>era. era \<in> set eraNames \<and> filterPred (eraOnly era) (book ''Fisher, Irving'' ''The Rate'' ''Academic'' 1900 True) \<longleftrightarrow> era = ''1800-1900'')"
proof -
  have y: "number_or_0 (year (book ''Fisher, Irving'' ''The Rate'' ''Academic'' 1900 True)) = 1900"
    by (simp add: book_def number_or_0_def)
  show ?thesis
    using y era_ranges_partition [of "book ''Fisher, Irving'' ''The Rate'' ''Academic'' 1900 True"]
    by simp
qed


subsection \<open>Filtering and sorting\<close>

lemma filterPred_eq: "filterPred c = selected c"
  by (rule ext) (rule filterPred_selected)

text \<open>
  C1, as amended. \<open>applyFilters\<close> leaves in \<open>filtered\<close> exactly the records of the dataset,
  each as often as it occurs there, that pass every active condition: when the lowercased,
  trimmed query is not empty, it is a substring of the lowercased text made of
  \<open>author\<close>, \<open>title\<close> and \<open>key_concepts\<close> joined by single spaces; a selected stream
  equals \<open>d.stream\<close>; a selected topic equals \<open>d.topic\<close>; with an era selected,
  \<open>Number(d.year) || 0\<close> lies in that era's inclusive range; and \<open>d.have\<close> is truthy when
  the control is \<open>yes\<close>, falsy when it is \<open>no\<close>.
\<close>

theorem applyFilters_selects:
  "mset (heap (applyFilters s) (filtered (applyFilters s)))
     = mset (filter (selected (ctl s)) (heap s (dataRef s)))"
proof -
  have "filterPred (ctl s) = selected (ctl s)"
    by (rule filterPred_eq)
  then show ?thesis
    by (simp add: view_def mset_js_sort)
qed

text \<open>
  The selection as stated, with the three texts concatenated directly, is not what
  \<open>applyFilters\<close> computes: with the query \<open>ma\<close>, the book by \<open>Graham\<close> titled
  \<open>Analysis\<close> is selected as stated (\<open>grahamanalysis\<close>) and is not in \<open>filtered\<close>
  (\<open>graham analysis\<close>).
\<close>

theorem applyFilters_selects_counterexample:
  "mset (heap (applyFilters (start (noControls\<lparr>searchValue := ''ma''\<rparr>) [book ''Graham'' ''Analysis'' ''Practitioner'' 1934 True]))
           (filtered (applyFilters (start (noControls\<lparr>searchValue := ''ma''\<rparr>) [book ''Graham'' ''Analysis'' ''Practitioner'' 1934 True]))))
   \<noteq> mset (filter (selected_stated (ctl (start (noControls\<lparr>searchValue := ''ma''\<rparr>) [book ''Graham'' ''Analysis'' ''Practitioner'' 1934 True])))
         (heap (start (noControls\<lparr>searchValue := ''ma''\<rparr>) [book ''Graham'' ''Analysis'' ''Practitioner'' 1934 True])
               (dataRef (start (noControls\<lparr>searchValue := ''ma''\<rparr>) [book ''Graham'' ''Analysis'' ''Practitioner'' 1934 True]))))"
proof -
  let ?d = "book ''Graham'' ''Analysis'' ''Practitioner'' 1934 True"
  let ?c = "noControls\<lparr>searchValue := ''ma''\<rparr>"
  have no: "\<not> filterPred ?c ?d"
    by code_simp
  have "js_includes (toLowerCase (''Graham'' @ ''Analysis'' @ [])) (trim (toLowerCase ''ma''))"
    by code_simp
  then have yes: "selected_stated ?c ?d"
    by (simp add: selected_stated_def Let_def noControls_def book_def js_includes_iff)
  have lhs: "heap (applyFilters (start ?c [?d])) (filtered (applyFilters (start ?c [?d]))) = []"
    using no by (simp add: applyFilters_heap view_def start_def js_sort_def)
  have rhs: "filter (selected_stated (ctl (start ?c [?d]))) (heap (start ?c [?d]) (dataRef (start ?c [?d]))) = [?d]"
    using yes by (simp add: start_def)
  show ?thesis unfolding lhs rhs by simp
qed


text \<open>The selection with all five controls set, on the sample catalogue.\<close>

theorem applyFilters_selects_witness:
  "mset (heap (applyFilters sampleSearch) (filtered (applyFilters sampleSearch)))
     = {#book ''Graham, Benjamin'' ''Security Analysis'' ''Practitioner'' 1934 True#}
   \<and> trim (toLowerCase (searchValue (ctl sampleSearch))) = ''graham''
   \<and> selected (ctl sampleSearch) (book ''Graham, Benjamin'' ''Security Analysis'' ''Practitioner'' 1934 True)
   \<and> \<not> selected (ctl sampleSearch) (book ''Graham, Benjamin'' ''The Intelligent Investor'' ''Practitioner'' 1949 False)"
proof -
  have "filter (filterPred (ctl sampleSearch)) (heap sampleSearch (dataRef sampleSearch))
          = [book ''Graham, Benjamin'' ''Security Analysis'' ''Practitioner'' 1934 True]"
    by code_simp
  then have sel: "filter (selected (ctl sampleSearch)) (heap sampleSearch (dataRef sampleSearch))
          = [book ''Graham, Benjamin'' ''Security Analysis'' ''Practitioner'' 1934 True]"
    by (simp add: filterPred_selected [abs_def])
  have q: "trim (toLowerCase (searchValue (ctl sampleSearch))) = ''graham''"
    by code_simp
  have yes: "filterPred (ctl sampleSearch) (book ''Graham, Benjamin'' ''Security Analysis'' ''Practitioner'' 1934 True)"
    by code_simp
  have no: "\<not> filterPred (ctl sampleSearch) (book ''Graham, Benjamin'' ''The Intelligent Investor'' ''Practitioner'' 1949 False)"
    by code_simp
  show ?thesis
    using applyFilters_selects [of sampleSearch] sel q yes no
    by (simp add: filterPred_selected)
qed

text \<open>
  C2. After \<open>applyFilters\<close> the list in \<open>filtered\<close> is ordered by the comparator's key:
  \<open>Number(value) || 0\<close> when the sort field is \<open>year\<close>, \<open>String(value || '').toLowerCase()\<close>
  otherwise; non-decreasing when \<open>sortDir\<close> is 1, non-increasing when it is -1. A click on
  the header of the current sort field negates \<open>sortDir\<close>; a click on another header makes
  it the sort field, with \<open>sortDir\<close> 1.
\<close>

theorem applyFilters_sorted:
  "(sortField s = ''year'' \<and> sortDir s = 1 \<longrightarrow>
      sorted_wrt (\<lambda>a b. number_or_0 (year a) \<le> number_or_0 (year b))
        (heap (applyFilters s) (filtered (applyFilters s))))
   \<and> (sortField s = ''year'' \<and> sortDir s = - 1 \<longrightarrow>
      sorted_wrt (\<lambda>a b. number_or_0 (year a) \<ge> number_or_0 (year b))
        (heap (applyFilters s) (filtered (applyFilters s))))
   \<and> (sortField s \<noteq> ''year'' \<and> sortDir s = 1 \<longrightarrow>
      sorted_wrt (\<lambda>a b. textKey (sortField s) a \<le> textKey (sortField s) b)
        (heap (applyFilters s) (filtered (applyFilters s))))
   \<and> (sortField s \<noteq> ''year'' \<and> sortDir s = - 1 \<longrightarrow>
      sorted_wrt (\<lambda>a b. textKey (sortField s) a \<ge> textKey (sortField s) b)
        (heap (applyFilters s) (filtered (applyFilters s))))
   \<and> sortField (handle (SortClick f) s) = f
   \<and> sortDir (handle (SortClick f) s) = (if sortField s = f then - sortDir s else 1)"
proof (intro conjI impI)
  assume "sortField s = ''year'' \<and> sortDir s = 1"
  then show "sorted_wrt (\<lambda>a b. number_or_0 (year a) \<le> number_or_0 (year b))
        (heap (applyFilters s) (filtered (applyFilters s)))"
    by (simp add: view_def) (rule sorted_wrt_js_sort, rule cmp_year_asc, auto)
next
  assume "sortField s = ''year'' \<and> sortDir s = - 1"
  then show "sorted_wrt (\<lambda>a b. number_or_0 (year a) \<ge> number_or_0 (year b))
        (heap (applyFilters s) (filtered (applyFilters s)))"
    by (simp add: view_def) (rule sorted_wrt_js_sort, rule cmp_year_desc, auto)
next
  assume "sortField s \<noteq> ''year'' \<and> sortDir s = 1"
  then show "sorted_wrt (\<lambda>a b. textKey (sortField s) a \<le> textKey (sortField s) b)
        (heap (applyFilters s) (filtered (applyFilters s)))"
    by (simp add: view_def textKey_def) (rule sorted_wrt_js_sort, rule cmp_text_asc, auto)
next
  assume "sortField s \<noteq> ''year'' \<and> sortDir s = - 1"
  then show "sorted_wrt (\<lambda>a b. textKey (sortField s) a \<ge> textKey (sortField s) b)
        (heap (applyFilters s) (filtered (applyFilters s)))"
    by (simp add: view_def textKey_def) (rule sorted_wrt_js_sort, rule cmp_text_desc, auto)
next
  show "sortField (handle (SortClick f) s) = f"
    by (simp add: sortClick_def)
next
  show "sortDir (handle (SortClick f) s) = (if sortField s = f then - sortDir s else 1)"
    by (simp add: sortClick_def)
qed


text \<open>The four orders on the sample catalogue, and two clicks.\<close>

theorem applyFilters_sorted_witness:
  "sorted_wrt (\<lambda>a b. number_or_0 (year a) \<le> number_or_0 (year b))
        (heap (applyFilters sampleState) (filtered (applyFilters sampleState)))
   \<and> map (\<lambda>d. number_or_0 (year d)) (heap (applyFilters sampleState) (filtered (applyFilters sampleState)))
        = [1907, 1934, 1938, 1949]
   \<and> sorted_wrt (\<lambda>a b. number_or_0 (year a) \<ge> number_or_0 (year b))
        (heap (applyFilters (sampleState\<lparr>sortDir := - 1\<rparr>)) (filtered (applyFilters (sampleState\<lparr>sortDir := - 1\<rparr>))))
   \<and> map (\<lambda>d. number_or_0 (year d))
         (heap (applyFilters (sampleState\<lparr>sortDir := - 1\<rparr>)) (filtered (applyFilters (sampleState\<lparr>sortDir := - 1\<rparr>))))
        = [1949, 1938, 1934, 1907]
   \<and> sorted_wrt (\<lambda>a b. textKey ''title'' a \<le> textKey ''title'' b)
        (heap (applyFilters (sampleState\<lparr>sortField := ''title''\<rparr>))
              (filtered (applyFilters (sampleState\<lparr>sortField := ''title''\<rparr>))))
   \<and> map (textKey ''title'')
         (heap (applyFilters (sampleState\<lparr>sortField := ''title''\<rparr>))
               (filtered (applyFilters (sampleState\<lparr>sortField := ''title''\<rparr>))))
        = [''security analysis'', ''the intelligent investor'', ''the rate of interest'',
           ''the theory of investment value'']
   \<and> sorted_wrt (\<lambda>a b. textKey ''title'' a \<ge> textKey ''title'' b)
        (heap (applyFilters (sampleState\<lparr>sortField := ''title'', sortDir := - 1\<rparr>))
              (filtered (applyFilters (sampleState\<lparr>sortField := ''title'', sortDir := - 1\<rparr>))))
   \<and> sortField (handle (SortClick ''title'') sampleState) = ''title''
   \<and> sortDir (handle (SortClick ''title'') sampleState) = 1
   \<and> sortDir (handle (SortClick ''year'') sampleState) = - 1"
proof -
  have f: "sortField sampleState = ''year''" "sortDir sampleState = 1"
    by (simp_all add: sampleState_def start_def)
  have a: "map (\<lambda>d. number_or_0 (year d)) (heap (applyFilters sampleState) (filtered (applyFilters sampleState)))
        = [1907, 1934, 1938, 1949]"
    unfolding applyFilters_filtered by code_simp
  have b: "map (\<lambda>d. number_or_0 (year d))
         (heap (applyFilters (sampleState\<lparr>sortDir := - 1\<rparr>)) (filtered (applyFilters (sampleState\<lparr>sortDir := - 1\<rparr>))))
        = [1949, 1938, 1934, 1907]"
    unfolding applyFilters_filtered by code_simp
  have c: "map (textKey ''title'')
         (heap (applyFilters (sampleState\<lparr>sortField := ''title''\<rparr>))
               (filtered (applyFilters (sampleState\<lparr>sortField := ''title''\<rparr>))))
        = [''security analysis'', ''the intelligent investor'', ''the rate of interest'',
           ''the theory of investment value'']"
    unfolding applyFilters_filtered by code_simp
  have g: "sortField (sampleState\<lparr>sortDir := - 1\<rparr>) = ''year''"
    "sortDir (sampleState\<lparr>sortDir := - 1\<rparr>) = - 1"
    "sortField (sampleState\<lparr>sortField := ''title''\<rparr>) \<noteq> ''year''"
    "sortDir (sampleState\<lparr>sortField := ''title''\<rparr>) = 1"
    "sortField (sampleState\<lparr>sortField := ''title''\<rparr>) = ''title''"
    "sortField (sampleState\<lparr>sortField := ''title'', sortDir := - 1\<rparr>) \<noteq> ''year''"
    "sortField (sampleState\<lparr>sortField := ''title'', sortDir := - 1\<rparr>) = ''title''"
    "sortDir (sampleState\<lparr>sortField := ''title'', sortDir := - 1\<rparr>) = - 1"
    by (simp_all add: f)
  note t1 = applyFilters_sorted [of sampleState "''title''"]
  note t2 = applyFilters_sorted [of sampleState "''year''"]
  note t3 = applyFilters_sorted [of "sampleState\<lparr>sortDir := - 1\<rparr>" "''year''"]
  note t4 = applyFilters_sorted [of "sampleState\<lparr>sortField := ''title''\<rparr>" "''year''"]
  note t5 = applyFilters_sorted [of "sampleState\<lparr>sortField := ''title'', sortDir := - 1\<rparr>" "''year''"]
  have c1: "sorted_wrt (\<lambda>a b. number_or_0 (year a) \<le> number_or_0 (year b))
        (heap (applyFilters sampleState) (filtered (applyFilters sampleState)))"
    using t1 f by blast
  have c2: "sorted_wrt (\<lambda>a b. number_or_0 (year a) \<ge> number_or_0 (year b))
        (heap (applyFilters (sampleState\<lparr>sortDir := - 1\<rparr>)) (filtered (applyFilters (sampleState\<lparr>sortDir := - 1\<rparr>))))"
    using t3 g(1,2) by blast
  have c3: "sorted_wrt (\<lambda>a b. textKey ''title'' a \<le> textKey ''title'' b)
        (heap (applyFilters (sampleState\<lparr>sortField := ''title''\<rparr>))
              (filtered (applyFilters (sampleState\<lparr>sortField := ''title''\<rparr>))))"
    using t4 g(3,4) unfolding g(5) by blast
  have c4: "sorted_wrt (\<lambda>a b. textKey ''title'' a \<ge> textKey ''title'' b)
        (heap (applyFilters (sampleState\<lparr>sortField := ''title'', sortDir := - 1\<rparr>))
              (filtered (applyFilters (sampleState\<lparr>sortField := ''title'', sortDir := - 1\<rparr>))))"
    using t5 g(6,8) unfolding g(7) by blast
  have c5: "sortField (handle (SortClick ''title'') sampleState) = ''title''"
    using t1 by blast
  have c6: "sortDir (handle (SortClick ''title'') sampleState) = 1"
    using t1 f by simp
  have c7: "sortDir (handle (SortClick ''year'') sampleState) = - 1"
    using t2 f by simp
  show ?thesis
    using a b c c1 c2 c3 c4 c5 c6 c7 by blast
qed


subsection \<open>Incremental rendering\<close>

lemma reachable_invariants:
  assumes "init c ds = Inr s0"
  shows "renderInv (run es s0) \<and> extends s0 (run es s0)"
proof (rule run_invariant)
  from init_state [OF assms] show "renderInv s0 \<and> extends s0 s0" by simp
next
  fix e t
  assume a: "renderInv t \<and> extends s0 t"
  then have "filtered t < nextFree t" by (simp add: extends_def)
  with a show "renderInv (handle e t) \<and> extends s0 (handle e t)"
    by (simp add: extends_handle renderInv_handle)
qed

text \<open>
  C9. In every state reached from start-up, \<open>rendered\<close> is at most the length of
  \<open>filtered\<close> and equals the number of rows in the table body, and the load-more sentinel
  is shown (\<open>block\<close>) exactly when \<open>rendered\<close> is less than that length and hidden
  (\<open>none\<close>) otherwise. A call of \<open>renderBatch\<close> there appends the rows of the next
  \<open>min(60, filtered.length - rendered)\<close> records, none when none remain, and keeps all this.
\<close>

theorem incremental_rendering:
  assumes "init c ds = Inr s0" and "s = run es s0"
  shows "rendered s \<le> length (heap s (filtered s))
     \<and> rendered s = length (tbody s)
     \<and> (loadMore s = ''block'' \<longleftrightarrow> rendered s < length (heap s (filtered s)))
     \<and> (loadMore s = ''none'' \<longleftrightarrow> \<not> rendered s < length (heap s (filtered s)))
     \<and> tbody (renderBatch s)
          = tbody s @ map (renderRow (multiWorkAuthors s))
              (take (min 60 (length (heap s (filtered s)) - rendered s))
                 (drop (rendered s) (heap s (filtered s))))
     \<and> length (tbody (renderBatch s))
          = length (tbody s) + min 60 (length (heap s (filtered s)) - rendered s)
     \<and> rendered (renderBatch s) = length (tbody (renderBatch s))
     \<and> (loadMore (renderBatch s) = ''block''
          \<longleftrightarrow> rendered (renderBatch s) < length (heap (renderBatch s) (filtered (renderBatch s))))"
proof -
  from reachable_invariants [OF assms(1), of es] assms(2) have inv: "renderInv s" by simp
  then have le: "rendered s \<le> length (heap s (filtered s))" and eq: "rendered s = length (tbody s)"
    by (simp_all add: renderInv_def)
  have lm: "(loadMore s = ''block'' \<longleftrightarrow> rendered s < length (heap s (filtered s)))"
    "(loadMore s = ''none'' \<longleftrightarrow> \<not> rendered s < length (heap s (filtered s)))"
    using inv by (simp_all add: renderInv_def)
  from renderBatch_rows [OF le]
  have rows: "tbody (renderBatch s)
          = tbody s @ map (renderRow (multiWorkAuthors s))
              (take (min 60 (length (heap s (filtered s)) - rendered s))
                 (drop (rendered s) (heap s (filtered s))))"
    by (simp add: BATCH_SIZE_def)
  from renderInv_renderBatch [OF le eq] have inv': "renderInv (renderBatch s)" .
  have len: "length (tbody (renderBatch s))
          = length (tbody s) + min 60 (length (heap s (filtered s)) - rendered s)"
    unfolding rows using le by (simp add: min_def)
  have r': "rendered (renderBatch s) = length (tbody (renderBatch s))"
    using inv' by (simp add: renderInv_def)
  have lm': "(loadMore (renderBatch s) = ''block''
          \<longleftrightarrow> rendered (renderBatch s) < length (heap (renderBatch s) (filtered (renderBatch s))))"
    using inv' by (simp add: renderInv_def)
  from le eq lm rows len r' lm' show ?thesis by blast
qed

text \<open>Sixty-one records: sixty rows after start-up, one more with the next batch.\<close>

theorem incremental_rendering_witness:
  "init noControls manyBooks = Inr manyLib
   \<and> length (heap manyLib (filtered manyLib)) = 61
   \<and> rendered manyLib = 60 \<and> length (tbody manyLib) = 60
   \<and> loadMore manyLib = ''block''
   \<and> length (tbody (renderBatch manyLib)) = 61
   \<and> rendered (renderBatch manyLib) = 61
   \<and> loadMore (renderBatch manyLib) = ''none''"
proof -
  from init_view [OF manyLib_init]
  have n: "length (heap manyLib (filtered manyLib)) = 61" and r: "rendered manyLib = 60"
    by (simp_all add: length_js_sort manyBooks_def BATCH_SIZE_def)
  have r0: "manyLib = run [] manyLib" by (simp add: run_def)
  note t = incremental_rendering [OF manyLib_init r0]
  have a: "length (tbody manyLib) = 60" using t r by simp
  have l: "loadMore manyLib = ''block''" using t r n by simp
  have b: "length (tbody (renderBatch manyLib)) = 61" using t r n a by simp
  have c: "rendered (renderBatch manyLib) = 61" using t b by simp
  have "loadMore (renderBatch manyLib) \<noteq> ''block''" using t c n by simp
  moreover have "renderInv (renderBatch manyLib)"
    using t by (intro renderInv_renderBatch) simp_all
  ultimately have d: "loadMore (renderBatch manyLib) = ''none''"
    by (simp add: renderInv_def split: if_splits)
  from manyLib_init n r a l b c d show ?thesis by simp
qed


subsection \<open>Recomputation on events\<close>


lemma view_timer [simp]: "view (s\<lparr>timer := b\<rparr>) = view s"
  by (simp add: view_def)

lemma view_cong:
  "heap s (dataRef s) = ds \<Longrightarrow> ctl s = c \<Longrightarrow> sortField s = f \<Longrightarrow> sortDir s = dir \<Longrightarrow>
   view s = js_sort (compareEntries f dir) (filter (filterPred c) ds)"
  by (simp add: view_def)

text \<open>
  C3, as amended. A change of the stream, topic, era or have filter and a click on a sort
  header recompute the filtered, sorted list and the rendered rows within the handling of
  that event. An input event of the search box does not: its listener only starts the
  debounce timer again, leaving the list and the rows as they are, and they are
  recomputed when that timer fires.
\<close>

theorem recompute_on_interaction:
  "(immediate e \<longrightarrow>
      heap (handle e s) (filtered (handle e s)) = view (controlsAfter e s)
      \<and> tbody (handle e s)
          = map (renderRow (multiWorkAuthors s)) (take BATCH_SIZE (view (controlsAfter e s)))
      \<and> ctl (handle e s) = ctl (controlsAfter e s)
      \<and> sortField (handle e s) = sortField (controlsAfter e s)
      \<and> sortDir (handle e s) = sortDir (controlsAfter e s))
   \<and> heap (handle (SearchInput v) s) = heap s
   \<and> filtered (handle (SearchInput v) s) = filtered s
   \<and> tbody (handle (SearchInput v) s) = tbody s
   \<and> rendered (handle (SearchInput v) s) = rendered s
   \<and> ctl (handle (SearchInput v) s) = ctl (controlsAfter (SearchInput v) s)
   \<and> timer (handle (SearchInput v) s)
   \<and> (timer s \<longrightarrow>
        heap (handle TimerFires s) (filtered (handle TimerFires s)) = view s
        \<and> tbody (handle TimerFires s)
            = map (renderRow (multiWorkAuthors s)) (take BATCH_SIZE (view s))
        \<and> \<not> timer (handle TimerFires s))"
proof -
  have imm: "handle e s = applyFilters (controlsAfter e s)" if "immediate e"
    using that by (cases e) simp_all
  have m: "multiWorkAuthors (controlsAfter e s) = multiWorkAuthors s"
    by (cases e) (simp_all add: sortClick_def)
  have a: "immediate e \<longrightarrow>
      heap (handle e s) (filtered (handle e s)) = view (controlsAfter e s)
      \<and> tbody (handle e s)
          = map (renderRow (multiWorkAuthors s)) (take BATCH_SIZE (view (controlsAfter e s)))
      \<and> ctl (handle e s) = ctl (controlsAfter e s)
      \<and> sortField (handle e s) = sortField (controlsAfter e s)
      \<and> sortDir (handle e s) = sortDir (controlsAfter e s)"
    by (simp add: imm applyFilters_rows m)
  have b: "timer s \<longrightarrow>
        heap (handle TimerFires s) (filtered (handle TimerFires s)) = view s
        \<and> tbody (handle TimerFires s)
            = map (renderRow (multiWorkAuthors s)) (take BATCH_SIZE (view s))
        \<and> \<not> timer (handle TimerFires s)"
    by (simp add: applyFilters_rows applyFilters_heap)
  from a b show ?thesis by simp
qed

lemma sampleLib_fields:
  "heap sampleLib (dataRef sampleLib) = sampleBooks" "ctl sampleLib = noControls"
  "sortField sampleLib = ''year''" "sortDir sampleLib = 1"
  "heap sampleLib (filtered sampleLib) = js_sort (compareEntries ''year'' 1) sampleBooks"
  using init_state [OF sampleLib_init] init_view [OF sampleLib_init] by simp_all

text \<open>
  After typing \<open>graham\<close> into the search box, the list is still the one of the four books,
  not the two that match.
\<close>

theorem recompute_on_interaction_counterexample:
  "heap (handle (SearchInput ''graham'') sampleLib) (filtered (handle (SearchInput ''graham'') sampleLib))
     \<noteq> view (controlsAfter (SearchInput ''graham'') sampleLib)"
proof -
  have "length (heap (handle (SearchInput ''graham'') sampleLib)
                     (filtered (handle (SearchInput ''graham'') sampleLib))) = 4"
    by (simp add: sampleLib_fields length_js_sort) (simp add: sampleBooks_def)
  moreover have "view (controlsAfter (SearchInput ''graham'') sampleLib)
      = js_sort (compareEntries ''year'' 1)
          (filter (filterPred (noControls\<lparr>searchValue := ''graham''\<rparr>)) sampleBooks)"
    by (rule view_cong) (simp_all add: sampleLib_fields)
  moreover have "length (filter (filterPred (noControls\<lparr>searchValue := ''graham''\<rparr>)) sampleBooks) = 2"
    by code_simp
  ultimately show ?thesis
    by (auto simp add: length_js_sort)
qed

text \<open>An era change, and a search input followed by its timer, on the sample catalogue.\<close>

theorem recompute_on_interaction_witness:
  "immediate (EraChange ''1900-1958'')
   \<and> map (\<lambda>d. number_or_0 (year d))
        (heap (handle (EraChange ''1900-1958'') sampleLib)
              (filtered (handle (EraChange ''1900-1958'') sampleLib))) = [1907, 1934, 1938, 1949]
   \<and> timer (handle (SearchInput ''graham'') sampleLib)
   \<and> map (\<lambda>d. number_or_0 (year d))
        (heap (handle TimerFires (handle (SearchInput ''graham'') sampleLib))
              (filtered (handle TimerFires (handle (SearchInput ''graham'') sampleLib)))) = [1934, 1949]
   \<and> \<not> timer (handle TimerFires (handle (SearchInput ''graham'') sampleLib))"
proof -
  note t = recompute_on_interaction [of "EraChange ''1900-1958''" sampleLib "''graham''"]
  note u = recompute_on_interaction [of "EraChange ''1900-1958''" "handle (SearchInput ''graham'') sampleLib" "''graham''"]
  have i: "immediate (EraChange ''1900-1958'')" by simp
  have v1: "view (controlsAfter (EraChange ''1900-1958'') sampleLib)
      = js_sort (compareEntries ''year'' 1)
          (filter (filterPred (noControls\<lparr>eraValue := ''1900-1958''\<rparr>)) sampleBooks)"
    by (rule view_cong) (simp_all add: sampleLib_fields)
  have e1: "map (\<lambda>d. number_or_0 (year d)) (js_sort (compareEntries ''year'' 1)
          (filter (filterPred (noControls\<lparr>eraValue := ''1900-1958''\<rparr>)) sampleBooks))
        = [1907, 1934, 1938, 1949]"
    by code_simp
  have a: "map (\<lambda>d. number_or_0 (year d))
        (heap (handle (EraChange ''1900-1958'') sampleLib)
              (filtered (handle (EraChange ''1900-1958'') sampleLib))) = [1907, 1934, 1938, 1949]"
    using t i v1 e1 by simp
  have tm: "timer (handle (SearchInput ''graham'') sampleLib)" using t by blast
  have v2: "view (handle (SearchInput ''graham'') sampleLib)
      = js_sort (compareEntries ''year'' 1)
          (filter (filterPred (noControls\<lparr>searchValue := ''graham''\<rparr>)) sampleBooks)"
    by (rule view_cong) (simp_all add: sampleLib_fields)
  have e2: "map (\<lambda>d. number_or_0 (year d)) (js_sort (compareEntries ''year'' 1)
          (filter (filterPred (noControls\<lparr>searchValue := ''graham''\<rparr>)) sampleBooks))
        = [1934, 1949]"
    by code_simp
  have b: "map (\<lambda>d. number_or_0 (year d))
        (heap (handle TimerFires (handle (SearchInput ''graham'') sampleLib))
              (filtered (handle TimerFires (handle (SearchInput ''graham'') sampleLib)))) = [1934, 1949]"
    using u tm v2 e2 by simp
  have c: "\<not> timer (handle TimerFires (handle (SearchInput ''graham'') sampleLib))"
    using u tm by blast
  from i a tm b c show ?thesis by blast
qed

subsection \<open>The author journey\<close>




subsection \<open>Hit testing\<close>

text \<open>
  C5. \<open>getHitIndex\<close> returns the index of the last research-note dot (\<open>has_note\<close>
  truthy) whose centre is within distance \<open>DOT_R_HOVER + 2\<close> of the pointer; when there is
  none, the index of the last regular dot whose centre is within distance \<open>DOT_R + 6\<close>;
  and -1 when there is neither.
\<close>

theorem getHitIndex_priority:
  "((\<exists>i. noteAt mx my ps i) \<longrightarrow>
      (\<exists>i. getHitIndex mx my ps = int i \<and> noteAt mx my ps i
            \<and> (\<forall>j. i < j \<longrightarrow> \<not> noteAt mx my ps j)))
   \<and> ((\<forall>i. \<not> noteAt mx my ps i) \<and> (\<exists>i. regularAt mx my ps i) \<longrightarrow>
      (\<exists>i. getHitIndex mx my ps = int i \<and> regularAt mx my ps i
            \<and> (\<forall>j. i < j \<longrightarrow> \<not> regularAt mx my ps j)))
   \<and> ((\<forall>i. \<not> noteAt mx my ps i) \<and> (\<forall>i. \<not> regularAt mx my ps i) \<longrightarrow>
      getHitIndex mx my ps = - 1)"
proof (intro conjI impI)
  assume "\<exists>i. noteAt mx my ps i"
  then obtain k where k: "noteAt mx my ps k" ..
  then have "k < length ps" by (simp add: noteAt_def)
  with k have "noteHit mx my ps (length ps) \<noteq> None"
    by (auto simp add: noteHit_None)
  then obtain i where i: "noteHit mx my ps (length ps) = Some i" by auto
  then have "noteAt mx my ps i" "\<forall>j. i < j \<and> j < length ps \<longrightarrow> \<not> noteAt mx my ps j"
    by (simp_all add: noteHit_Some)
  moreover have "\<not> noteAt mx my ps j" if "length ps \<le> j" for j
    using that by (simp add: noteAt_def)
  ultimately have "noteAt mx my ps i \<and> (\<forall>j. i < j \<longrightarrow> \<not> noteAt mx my ps j)"
    by (metis not_le)
  moreover have "getHitIndex mx my ps = int i" by (simp add: getHitIndex_def i)
  ultimately show "\<exists>i. getHitIndex mx my ps = int i \<and> noteAt mx my ps i
            \<and> (\<forall>j. i < j \<longrightarrow> \<not> noteAt mx my ps j)" by blast
next
  assume a: "(\<forall>i. \<not> noteAt mx my ps i) \<and> (\<exists>i. regularAt mx my ps i)"
  then have n: "noteHit mx my ps (length ps) = None" by (simp add: noteHit_None)
  from a obtain k where k: "regularAt mx my ps k" by blast
  then have "k < length ps" by (simp add: regularAt_def)
  with k have "regularHit mx my ps (length ps) \<noteq> None"
    by (auto simp add: regularHit_None)
  then obtain i where i: "regularHit mx my ps (length ps) = Some i" by auto
  then have "regularAt mx my ps i" "\<forall>j. i < j \<and> j < length ps \<longrightarrow> \<not> regularAt mx my ps j"
    by (simp_all add: regularHit_Some)
  moreover have "\<not> regularAt mx my ps j" if "length ps \<le> j" for j
    using that by (simp add: regularAt_def)
  ultimately have "regularAt mx my ps i \<and> (\<forall>j. i < j \<longrightarrow> \<not> regularAt mx my ps j)"
    by (metis not_le)
  moreover have "getHitIndex mx my ps = int i" by (simp add: getHitIndex_def i n)
  ultimately show "\<exists>i. getHitIndex mx my ps = int i \<and> regularAt mx my ps i
            \<and> (\<forall>j. i < j \<longrightarrow> \<not> regularAt mx my ps j)" by blast
next
  assume "(\<forall>i. \<not> noteAt mx my ps i) \<and> (\<forall>i. \<not> regularAt mx my ps i)"
  then have "noteHit mx my ps (length ps) = None" "regularHit mx my ps (length ps) = None"
    by (simp_all add: noteHit_None regularHit_None)
  then show "getHitIndex mx my ps = - 1" by (simp add: getHitIndex_def)
qed

lemma noteAt_squares:
  "noteAt mx my ps i \<longleftrightarrow> i < length ps \<and> truthy (has_note (pos_d (ps ! i)))
     \<and> (mx - pos_x (ps ! i)) * (mx - pos_x (ps ! i)) + (my - pos_y (ps ! i)) * (my - pos_y (ps ! i)) \<le> 121"
proof -
  have "(0::real) \<le> DOT_R_HOVER + 2" "(DOT_R_HOVER + 2) * (DOT_R_HOVER + 2) = 121"
    by (simp_all add: DOT_R_HOVER_def)
  with within_iff [of "DOT_R_HOVER + 2" mx "ps ! i" my] show ?thesis
    by (simp add: noteAt_def)
qed

lemma regularAt_squares:
  "regularAt mx my ps i \<longleftrightarrow> i < length ps \<and> \<not> truthy (has_note (pos_d (ps ! i)))
     \<and> (mx - pos_x (ps ! i)) * (mx - pos_x (ps ! i)) + (my - pos_y (ps ! i)) * (my - pos_y (ps ! i)) \<le> 72.25"
proof -
  have "(0::real) \<le> DOT_R + 6" "(DOT_R + 6) * (DOT_R + 6) = 72.25"
    by (simp_all add: DOT_R_def)
  with within_iff [of "DOT_R + 6" mx "ps ! i" my] show ?thesis
    by (simp add: regularAt_def)
qed

lemma sampleDots_at:
  "sampleDots ! 0 = \<lparr>pos_x = 100, pos_y = 100, pos_d = scored ''Dewing'' 1920 ''practitioner'' False\<rparr>"
  "sampleDots ! Suc 0 = \<lparr>pos_x = 105, pos_y = 100, pos_d = scored ''Williams'' 1938 ''academic'' True\<rparr>"
  "sampleDots ! 2 = \<lparr>pos_x = 300, pos_y = 300, pos_d = scored ''Fisher'' 1930 ''academic'' True\<rparr>"
  "length sampleDots = 3"
  by (simp_all add: sampleDots_def)

lemma sample_index: "i < (3::nat) \<longleftrightarrow> i = 0 \<or> i = 1 \<or> i = 2"
  by auto

text \<open>
  Over both dots the note dot wins; seven pixels left of the regular dot only that one is
  near enough; in the corner nothing is.
\<close>

theorem getHitIndex_priority_witness:
  "noteAt 102 100 sampleDots 1 \<and> regularAt 102 100 sampleDots 0 \<and> getHitIndex 102 100 sampleDots = 1
   \<and> regularAt 93 100 sampleDots 0 \<and> \<not> noteAt 93 100 sampleDots 1 \<and> getHitIndex 93 100 sampleDots = 0
   \<and> getHitIndex 0 0 sampleDots = - 1"
proof -
  have n: "noteAt mx my sampleDots i \<longleftrightarrow>
      (i = 1 \<and> (mx - 105) * (mx - 105) + (my - 100) * (my - 100) \<le> 121)
      \<or> (i = 2 \<and> (mx - 300) * (mx - 300) + (my - 300) * (my - 300) \<le> 121)" for mx my i
    unfolding noteAt_squares by (auto simp add: sampleDots_at sample_index scored_def)
  have r: "regularAt mx my sampleDots i \<longleftrightarrow>
      i = 0 \<and> (mx - 100) * (mx - 100) + (my - 100) * (my - 100) \<le> 72.25" for mx my i
    unfolding regularAt_squares by (auto simp add: sampleDots_at sample_index scored_def)
  have a: "noteAt 102 100 sampleDots 1" "regularAt 102 100 sampleDots 0"
    "regularAt 93 100 sampleDots 0" "\<not> noteAt 93 100 sampleDots 1"
    by (simp_all add: n r)
  have "getHitIndex 102 100 sampleDots = 1"
    using getHitIndex_priority [of 102 100 sampleDots] by (auto simp add: n r)
  moreover have "getHitIndex 93 100 sampleDots = 0"
    using getHitIndex_priority [of 93 100 sampleDots] by (auto simp add: n r)
  moreover have "getHitIndex 0 0 sampleDots = - 1"
    using getHitIndex_priority [of 0 0 sampleDots] by (auto simp add: n r)
  ultimately show ?thesis using a by simp
qed


subsection \<open>Trend lines\<close>

text \<open>
  C6. \<open>computeTrends\<close> treats the dots of paradigm \<open>academic\<close> and those of paradigm
  \<open>practitioner\<close> separately. For each, it yields one point per decade
  \<open>Math.floor(year / 10) * 10\<close> that has a dot, in ascending order of the decades: the
  point's \<open>x\<close> is \<open>yearToX(decade + 5)\<close> and its \<open>y\<close> is the arithmetic mean of the \<open>y\<close>
  of that decade's dots.
\<close>

theorem trends_by_decade:
  "avgByDecade cv pts
     = map (\<lambda>dec. (yearToX cv (real_of_int dec + 5),
                    sum_list (map pos_y (filter (\<lambda>p. decadeOf p = dec) pts))
                      / real (length (filter (\<lambda>p. decadeOf p = dec) pts))))
         (sorted_list_of_set (decadeOf ` set pts))
   \<and> real_of_int (decadeOf p) = real_of_int \<lfloor>real_of_int (pt_year (pos_d p)) / 10\<rfloor> * 10
   \<and> academic (computeTrends cv ps)
       = avgByDecade cv (filter (\<lambda>p. paradigm (pos_d p) = Str ''academic'') ps)
   \<and> practitioner (computeTrends cv ps)
       = avgByDecade cv (filter (\<lambda>p. paradigm (pos_d p) = Str ''practitioner'') ps)"
proof -
  let ?B = "foldl pushBucket [] pts"
  from buckets_keys [of "[]" pts]
  have d: "distinct (map fst ?B)" and k: "set (map fst ?B) = decadeOf ` set pts" by simp_all
  have keys: "js_sort (\<lambda>a b. a - b) (map fst ?B) = sorted_list_of_set (decadeOf ` set pts)"
    using sort_keys [OF d] k by simp
  have val: "(case map_of ?B dec of Some ys \<Rightarrow> foldl (+) 0 ys / real (length ys) | None \<Rightarrow> 0)
      = sum_list (map pos_y (filter (\<lambda>p. decadeOf p = dec) pts))
          / real (length (filter (\<lambda>p. decadeOf p = dec) pts))"
    if "dec \<in> decadeOf ` set pts" for dec
  proof -
    from that k have "dec \<in> fst ` set ?B" by simp
    then obtain ys where ys: "map_of ?B dec = Some ys"
      by (metis map_of_eq_None_iff not_None_eq)
    then have "bucketOf ?B dec = ys" by (simp add: bucketOf_def)
    with buckets_content [of "[]" pts dec]
    have "ys = map pos_y (filter (\<lambda>p. decadeOf p = dec) pts)" by (simp add: bucketOf_def)
    with ys show ?thesis by (simp add: foldl_plus)
  qed
  have a: "avgByDecade cv pts
     = map (\<lambda>dec. (yearToX cv (real_of_int dec + 5),
                    sum_list (map pos_y (filter (\<lambda>p. decadeOf p = dec) pts))
                      / real (length (filter (\<lambda>p. decadeOf p = dec) pts))))
         (sorted_list_of_set (decadeOf ` set pts))"
    unfolding avgByDecade_def Let_def keys
    by (rule map_cong) (simp_all add: val)
  have f: "real_of_int (decadeOf p) = real_of_int \<lfloor>real_of_int (pt_year (pos_d p)) / 10\<rfloor> * 10"
    using floor_divide_of_int_eq [of "pt_year (pos_d p)" 10, where ?'a = real]
    by (simp add: decadeOf_def)
  show ?thesis using a f by (simp add: computeTrends_def)
qed

text \<open>The sample dots: one academic point for the 1930s, the mean of 100 and 300, and one
  practitioner point for the 1920s.\<close>

theorem trends_by_decade_witness:
  "academic (computeTrends sampleCanvas sampleDots) = [(yearToX sampleCanvas 1935, 200)]
   \<and> practitioner (computeTrends sampleCanvas sampleDots) = [(yearToX sampleCanvas 1925, 100)]"
proof -
  have a: "filter (\<lambda>p. paradigm (pos_d p) = Str ''academic'') sampleDots
      = [\<lparr>pos_x = 105, pos_y = 100, pos_d = scored ''Williams'' 1938 ''academic'' True\<rparr>,
         \<lparr>pos_x = 300, pos_y = 300, pos_d = scored ''Fisher'' 1930 ''academic'' True\<rparr>]"
    by (simp add: sampleDots_def scored_def)
  have p: "filter (\<lambda>p. paradigm (pos_d p) = Str ''practitioner'') sampleDots
      = [\<lparr>pos_x = 100, pos_y = 100, pos_d = scored ''Dewing'' 1920 ''practitioner'' False\<rparr>]"
    by (simp add: sampleDots_def scored_def)
  have "academic (computeTrends sampleCanvas sampleDots) = [(yearToX sampleCanvas 1935, 200)]"
    using trends_by_decade [of sampleCanvas
        "filter (\<lambda>p. paradigm (pos_d p) = Str ''academic'') sampleDots" "sampleDots ! 0" sampleDots]
    unfolding a by (simp add: decadeOf_def scored_def)
  moreover have "practitioner (computeTrends sampleCanvas sampleDots) = [(yearToX sampleCanvas 1925, 100)]"
    using trends_by_decade [of sampleCanvas
        "filter (\<lambda>p. paradigm (pos_d p) = Str ''practitioner'') sampleDots" "sampleDots ! 0" sampleDots]
    unfolding p by (simp add: decadeOf_def scored_def)
  ultimately show ?thesis by simp
qed


section \<open>The datasets are left as they are\<close>

text \<open>
  C4. No event changes the datasets. In every state the catalogue reaches from start-up,
  the array \<open>window.LIBRARY_DATA\<close> holds the dataset in its order, \<open>filtered\<close> refers to
  another array than the dataset and than every array of the author index
  (\<open>data.filter\<close> made it, and \<open>sort\<close> reordered that one), and every array of the author
  index is as start-up built it (\<open>showAuthorJourney\<close> sorts the copy \<open>slice()\<close> made); in
  every state the timeline reaches, the array \<open>window.TIMELINE_DATA\<close> holds its dataset
  in its order. No statement of the scripts assigns to a property of a record, which is
  why records are values here.
\<close>

theorem datasets_unchanged:
  assumes "init c ds = Inr s0" and "s = run es s0"
      and "tl_init w ratio lo hi site pts = Some t0" and "t = tl_run tes t0"
  shows "heap s (dataRef s) = ds \<and> dataRef s = dataRef s0 \<and> filtered s \<noteq> dataRef s
     \<and> authorIndex s = authorIndex s0
     \<and> (\<forall>(k, a)\<in>set (authorIndex s). heap s a = heap s0 a \<and> filtered s \<noteq> a)
     \<and> (\<forall>k. worksOf s k = indexedUnder k ds)
     \<and> tl_heap t (tl_dataRef t) = pts \<and> tl_dataRef t = tl_dataRef t0"
proof -
  from init_state [OF assms(1)]
  have al: "allocated s0" and d0: "heap s0 (dataRef s0) = ds" by simp_all
  from reachable_invariants [OF assms(1), of es] assms(2) have e: "extends s0 s" by simp
  from init_fresh [OF assms(1)]
  have f0: "dataRef s0 < filtered s0" "\<forall>(k, a)\<in>set (authorIndex s0). a < filtered s0" by simp_all
  have "dataRef s0 < nextFree s0" using al by (simp add: allocated_iff)
  with e d0 have d: "heap s (dataRef s) = ds" "dataRef s = dataRef s0"
    by (simp_all add: extends_def)
  have fd: "filtered s \<noteq> dataRef s" using e f0(1) by (simp add: extends_def)
  have ai: "authorIndex s = authorIndex s0" using e by (simp add: extends_def)
  have ix: "\<forall>(k, a)\<in>set (authorIndex s). heap s a = heap s0 a \<and> filtered s \<noteq> a"
  proof (clarify, intro conjI)
    fix k a
    assume m: "(k, a) \<in> set (authorIndex s)"
    with ai have m0: "(k, a) \<in> set (authorIndex s0)" by simp
    from allocatedD [OF al m0] e show "heap s a = heap s0 a" by (simp add: extends_def)
    from f0(2) m0 have "a < filtered s0" by auto
    with e show "filtered s \<noteq> a" by (simp add: extends_def)
  qed
  have w: "\<forall>k. worksOf s k = indexedUnder k ds"
    using worksOf_extends [OF al e] worksOf_init [OF assms(1)] by simp
  from tl_init_state [OF assms(3)] have t0: "tl_allocated t0" "tl_heap t0 (tl_dataRef t0) = pts"
    by simp_all
  from tl_run_frame [OF t0(1), of tes] t0(2) assms(4)
  have tl: "tl_heap t (tl_dataRef t) = pts" "tl_dataRef t = tl_dataRef t0" by simp_all
  from d fd ai ix w tl show ?thesis by blast
qed


text \<open>
  The sample catalogue after a sort by title, a click on an author and an era change, and
  the sample timeline after a hover, a click and a filter button.
\<close>

theorem datasets_unchanged_witness:
  "init noControls sampleBooks = Inr sampleLib
   \<and> tl_init 980 2 1910 1948 [] samplePoints = Some sampleTimeline
   \<and> map (textKey ''title'')
        (heap (run [SortClick ''title''] sampleLib) (filtered (run [SortClick ''title''] sampleLib)))
       = [''security analysis'', ''the intelligent investor'', ''the rate of interest'',
          ''the theory of investment value'']
   \<and> heap (run [SortClick ''title''] sampleLib) (dataRef (run [SortClick ''title''] sampleLib))
       = sampleBooks
   \<and> heap (run [SortClick ''title'', AuthorClick 0, EraChange ''pre-1800''] sampleLib)
           (dataRef (run [SortClick ''title'', AuthorClick 0, EraChange ''pre-1800''] sampleLib))
       = sampleBooks
   \<and> worksOf (run [SortClick ''title'', AuthorClick 0, EraChange ''pre-1800''] sampleLib) ''graham''
       = indexedUnder ''graham'' sampleBooks
   \<and> tl_heap (tl_run [MouseMove 105 100, Click 105 100, FilterButton ''academic''] sampleTimeline)
             (tl_dataRef (tl_run [MouseMove 105 100, Click 105 100, FilterButton ''academic''] sampleTimeline))
       = samplePoints"
proof -
  note a = datasets_unchanged [OF sampleLib_init refl sampleTimeline_init refl,
      of "[SortClick ''title'']" "[MouseMove 105 100, Click 105 100, FilterButton ''academic'']"]
  note b = datasets_unchanged [OF sampleLib_init refl sampleTimeline_init refl,
      of "[SortClick ''title'', AuthorClick 0, EraChange ''pre-1800'']"
         "[MouseMove 105 100, Click 105 100, FilterButton ''academic'']"]
  have v: "view (sortClick ''title'' sampleLib)
      = js_sort (compareEntries ''title'' 1) (filter (filterPred noControls) sampleBooks)"
    by (rule view_cong) (simp_all add: sampleLib_fields sortClick_def)
  have "map (textKey ''title'')
          (js_sort (compareEntries ''title'' 1) (filter (filterPred noControls) sampleBooks))
       = [''security analysis'', ''the intelligent investor'', ''the rate of interest'',
          ''the theory of investment value'']"
    by code_simp
  then have srt: "map (textKey ''title'')
        (heap (run [SortClick ''title''] sampleLib) (filtered (run [SortClick ''title''] sampleLib)))
       = [''security analysis'', ''the intelligent investor'', ''the rate of interest'',
          ''the theory of investment value'']"
    by (simp add: run_def applyFilters_filtered v)
  from a b sampleLib_init sampleTimeline_init srt show ?thesis by blast
qed


section \<open>The divergence chart plots the metric\<close>

text \<open>
  C8, as amended. \<open>drawDivergence\<close> of static/js/periodicals.js takes the window keys of
  the divergence object in ascending sorted order and draws one dot per window, at the
  \<open>x\<close> of the window's start year plus 2 and the \<open>y\<close>
  \<open>pad.top + (1 - val) * chartH\<close> of that window's \<open>cosine_distance\<close>, and one polyline
  through these points in the same order. The three-series versions draw the same for
  a divergence object with at least two windows, and draw no line and no dot for a
  series with fewer than two.
\<close>

theorem divergence_chart:
  "drawDivergence (Some ch) (Some dv)
     = FillRect 0 0 (chart_w ch) (chart_h ch) #
       (if dv = [] then []
        else gridLines pad1 ch @ yearLabels pad1 ch @ splitMarker pad1 ch ''1958: M&M''
             @ areaUnder pad1 ch (pointsOf pad1 ch dv)
             @ polyline (pointsOf pad1 ch dv)
             @ dotsAt 4 (pointsOf pad1 ch dv)
             @ axisLabel pad1 ch)
   \<and> filter isArc (drawDivergence (Some ch) (Some dv))
       = map (\<lambda>(x, y). Arc x y 4) (pointsOf pad1 ch dv)
   \<and> drawDivergence_series (Some ch) (Some dv) pl al
     = FillRect 0 0 (chart_w ch) (chart_h ch) #
       (if dv = [] \<and> pl = [] \<and> al = [] then []
        else gridLines pad3 ch @ yearLabels pad3 ch @ splitMarker pad3 ch ''M&M 1958''
             @ (if length pl < 2 then []
                else polyline (pointsOf pad3 ch pl) @ dotsAt 3 (pointsOf pad3 ch pl))
             @ (if length al < 2 then []
                else polyline (pointsOf pad3 ch al) @ dotsAt 3 (pointsOf pad3 ch al))
             @ (if length dv < 2 then []
                else polyline (pointsOf pad3 ch dv) @ dotsAt 4 (pointsOf pad3 ch dv))
             @ axisLabel pad3 ch @ legend pad3 ch)
   \<and> map fst (pointsOf pd ch dv)
       = map (\<lambda>w. map_option (xPos pd ch) (windowMid w)) (sort (map fst dv))
   \<and> map snd (pointsOf pd ch dv)
       = map (\<lambda>w. pad_top pd + (1 - cosine_distance dv w) * (chart_h ch - pad_top pd - pad_bottom pd))
           (sort (map fst dv))
   \<and> sorted (sort (map fst dv)) \<and> mset (sort (map fst dv)) = mset (map fst dv)
   \<and> windowMid (nat_digits n @ CHR ''-'' # rest) = Some (real n + 2)"
proof -
  note one = drawDivergence_points [of ch dv]
  have arcs: "filter isArc (drawDivergence (Some ch) (Some dv))
       = map (\<lambda>(x, y). Arc x y 4) (pointsOf pad1 ch dv)"
    unfolding one by (simp add: isArc_def pointsOf_def)
  note three = drawDivergence_series_points [of ch dv pl al]
  have xs: "map fst (pointsOf pd ch dv)
       = map (\<lambda>w. map_option (xPos pd ch) (windowMid w)) (sort (map fst dv))"
    by (simp add: pointsOf_def comp_def)
  have ys: "map snd (pointsOf pd ch dv)
       = map (\<lambda>w. pad_top pd + (1 - cosine_distance dv w) * (chart_h ch - pad_top pd - pad_bottom pd))
           (sort (map fst dv))"
    by (simp add: pointsOf_def comp_def yPos_def)
  from one arcs three xs ys windowMid_start [of n rest] show ?thesis by simp
qed


text \<open>A divergence object with one window: the three-series chart draws no dot.\<close>

theorem divergence_chart_counterexample:
  "length (filter isArc (drawDivergence_series (Some sampleChart) (Some [(''1955-1959'', 1 / 2)]) [] []))
     \<noteq> length [(''1955-1959'', 1 / 2 :: real)]"
  by (simp add: drawDivergence_series_points isArc_def)

text \<open>Three windows given out of order: three dots, in the order of the keys.\<close>

theorem divergence_chart_witness:
  "sort (map fst sampleDivergence) = [''1900-1904'', ''1955-1959'', ''2000-2004'']
   \<and> windowMid ''1900-1904'' = Some 1902
   \<and> filter isArc (drawDivergence (Some sampleChart) (Some sampleDivergence))
       = [Arc (Some (xPos pad1 sampleChart 1902)) (yPos pad1 sampleChart (1 / 4)) 4,
          Arc (Some (xPos pad1 sampleChart 1957)) (yPos pad1 sampleChart (1 / 2)) 4,
          Arc (Some (xPos pad1 sampleChart 2002)) (yPos pad1 sampleChart (3 / 4)) 4]
   \<and> length (filter isArc (drawDivergence_series (Some sampleChart) (Some sampleDivergence) [] [])) = 3"
proof -
  note t = divergence_chart [of sampleChart sampleDivergence "[]" "[]" pad1 1900 "''1904''"]
  have k: "sort (map fst sampleDivergence) = [''1900-1904'', ''1955-1959'', ''2000-2004'']"
    by code_simp
  have d: "nat_digits 1900 = ''1900''" "nat_digits 1955 = ''1955''" "nat_digits 2000 = ''2000''"
    by code_simp+
  have "windowMid (nat_digits 1900 @ CHR ''-'' # ''1904'') = Some (real 1900 + 2)"
    using t by blast
  then have m0: "windowMid ''1900-1904'' = Some 1902" using d(1) by simp
  have m1: "windowMid ''1955-1959'' = Some 1957"
    using windowMid_start [of 1955 "''1959''"] d(2) by simp
  have m2: "windowMid ''2000-2004'' = Some 2002"
    using windowMid_start [of 2000 "''2004''"] d(3) by simp
  have v: "cosine_distance sampleDivergence ''1900-1904'' = 1 / 4"
    "cosine_distance sampleDivergence ''1955-1959'' = 1 / 2"
    "cosine_distance sampleDivergence ''2000-2004'' = 3 / 4"
    by (simp_all add: cosine_distance_def sampleDivergence_def)
  have p: "pointsOf pad1 sampleChart sampleDivergence
      = [(Some (xPos pad1 sampleChart 1902), yPos pad1 sampleChart (1 / 4)),
         (Some (xPos pad1 sampleChart 1957), yPos pad1 sampleChart (1 / 2)),
         (Some (xPos pad1 sampleChart 2002), yPos pad1 sampleChart (3 / 4))]"
    unfolding pointsOf_def k by (simp add: m0 m1 m2 v)
  have a: "filter isArc (drawDivergence (Some sampleChart) (Some sampleDivergence))
       = [Arc (Some (xPos pad1 sampleChart 1902)) (yPos pad1 sampleChart (1 / 4)) 4,
          Arc (Some (xPos pad1 sampleChart 1957)) (yPos pad1 sampleChart (1 / 2)) 4,
          Arc (Some (xPos pad1 sampleChart 2002)) (yPos pad1 sampleChart (3 / 4)) 4]"
    using t [THEN conjunct2, THEN conjunct1] unfolding p by simp
  have n: "length sampleDivergence = 3" "sampleDivergence \<noteq> []"
    by (simp_all add: sampleDivergence_def)
  have b: "length (filter isArc (drawDivergence_series (Some sampleChart) (Some sampleDivergence) [] [])) = 3"
    unfolding t [THEN conjunct2, THEN conjunct2, THEN conjunct1]
    using n by (simp add: isArc_def pointsOf_def)
  from k m0 a b show ?thesis by simp
qed

end
